theory Spec2Isabelle
  imports Complex_Main "HOL-Library.Multiset"
begin

section \<open>Errors raised by the Python source\<close>

datatype py_error =
    KeyError | TypeError | ValueError | ZeroDivisionError | AttributeError
  | IntegrityError | OverflowError | ProgrammingError

section \<open>Assigner: \<open>assignment_engine.py\<close>\<close>

text \<open>
  One entry of the \<open>assignments\<close> dictionary built by
  \<open>AssignmentEngine._generate_perfect_balanced_assignments\<close>:
  the papers a student has to grade and the students grading the student's own paper.
\<close>

record assignment =
  assigned_papers :: "string list"
  evaluators :: "string list"

type_synonym assignments = "string \<rightharpoonup> assignment"

text \<open>
  \<open>for student in self.students: assignments[student] = {'assigned_papers': [], 'evaluators': []}\<close>
\<close>

definition init_assignments :: "string list \<Rightarrow> assignments" where
  "init_assignments students =
     fold (\<lambda>s a. a(s \<mapsto> \<lparr>assigned_papers = [], evaluators = []\<rparr>)) students Map.empty"

text \<open>
  The inner \<open>while len(assigned_papers) < assignments_per_student\<close> loop for the evaluator
  at position \<open>i\<close> of the shuffled list.  The loop state is \<open>offset\<close> and the list collected
  so far; the \<open>break\<close> fires once \<open>offset\<close> has passed \<open>total_students\<close>.
\<close>

function select_targets ::
  "string list \<Rightarrow> bool \<Rightarrow> int \<Rightarrow> string \<Rightarrow> nat \<Rightarrow> nat \<Rightarrow> string list \<Rightarrow> string list" where
  "select_targets shuffled allow_self k evaluator i offset assigned =
     (if int (length assigned) < k then
        (let target_student = shuffled ! ((i + offset) mod length shuffled);
             assigned' = (if allow_self \<or> target_student \<noteq> evaluator
                          then assigned @ [target_student] else assigned);
             offset' = offset + 1
         in if offset' > length shuffled then assigned'
            else select_targets shuffled allow_self k evaluator i offset' assigned')
      else assigned)"
  by pat_completeness auto
termination
  by (relation "measure (\<lambda>(shuffled, allow_self, k, evaluator, i, offset, assigned).
        Suc (length shuffled) - offset)") auto

declare select_targets.simps [simp del]

text \<open>
  \<open>for paper_owner in assigned_papers: assignments[paper_owner]['evaluators'].append(evaluator)\<close>;
  a missing key raises \<open>KeyError\<close>.
\<close>

fun record_evaluators :: "assignments \<Rightarrow> string \<Rightarrow> string list \<Rightarrow> py_error + assignments" where
  "record_evaluators a ev [] = Inr a"
| "record_evaluators a ev (p # ps) =
     (case a p of
        None \<Rightarrow> Inl KeyError
      | Some r \<Rightarrow> record_evaluators (a(p \<mapsto> r\<lparr>evaluators := evaluators r @ [ev]\<rparr>)) ev ps)"

text \<open>The outer \<open>for i, evaluator in enumerate(shuffled_students)\<close> loop.\<close>

fun assign_ring ::
  "string list \<Rightarrow> bool \<Rightarrow> int \<Rightarrow> assignments \<Rightarrow> (nat \<times> string) list \<Rightarrow> py_error + assignments" where
  "assign_ring shuffled allow_self k a [] = Inr a"
| "assign_ring shuffled allow_self k a ((i, ev) # rest) =
     (let papers = select_targets shuffled allow_self k ev i (if allow_self then 0 else 1) []
      in case a ev of
           None \<Rightarrow> Inl KeyError
         | Some r \<Rightarrow>
             (case record_evaluators (a(ev \<mapsto> r\<lparr>assigned_papers := papers\<rparr>)) ev papers of
                Inl e \<Rightarrow> Inl e
              | Inr a' \<Rightarrow> assign_ring shuffled allow_self k a' rest))"

text \<open>
  \<open>_analyze_assignments\<close>, called on the finished dictionary.  It returns at once unless
  the configuration is \<open>verbose\<close> (the default); otherwise it prints statistics of
  \<open>evaluation_counts\<close>, one count per key of the dictionary (their order plays no role),
  and \<open>min(evaluation_counts)\<close> raises \<open>ValueError\<close> when the dictionary is empty.
  Nothing after it can fail: the division is by the number of counts.
\<close>

definition analyze_assignments :: "bool \<Rightarrow> string list \<Rightarrow> assignments \<Rightarrow> py_error + unit" where
  "analyze_assignments verbose students a =
     (if \<not> verbose then Inr ()
      else
        (let evaluation_counts =
               map (\<lambda>s. case a s of None \<Rightarrow> 0 | Some info \<Rightarrow> length (evaluators info))
                 (remdups students)
         in if evaluation_counts = [] then Inl ValueError else Inr ()))"

text \<open>
  \<open>_generate_perfect_balanced_assignments\<close>.  The list \<open>shuffled\<close> is the value of
  \<open>shuffled_students\<close> after \<open>random.shuffle\<close>: the standard library's generator is not
  part of the repository, so the outcome of the shuffle is a parameter, some permutation
  of \<open>students\<close>.  The call is made whatever the seed is; the seed only fixes which
  permutation comes out.  \<open>verbose\<close> is \<open>config_data["system"]["verbose"]\<close>; besides
  printing it decides whether \<open>_analyze_assignments\<close> does anything.
\<close>

definition generate_perfect_balanced_assignments ::
  "bool \<Rightarrow> string list \<Rightarrow> string list \<Rightarrow> bool \<Rightarrow> int \<Rightarrow> py_error + assignments" where
  "generate_perfect_balanced_assignments verbose students shuffled allow_self k =
     (case assign_ring shuffled allow_self k (init_assignments students) (enumerate 0 shuffled) of
        Inl e \<Rightarrow> Inl e
      | Inr a \<Rightarrow>
          (case analyze_assignments verbose students a of
             Inl e \<Rightarrow> Inl e
           | Inr u \<Rightarrow> Inr a))"

text \<open>
  The call of the inner loop made by the outer loop for the pair \<open>(i, evaluator)\<close>.
\<close>

definition papers_at :: "string list \<Rightarrow> bool \<Rightarrow> int \<Rightarrow> nat \<times> string \<Rightarrow> string list" where
  "papers_at sh allow k x =
     select_targets sh allow k (snd x) (fst x) (if allow then 0 else 1) []"

text \<open>
  The reviewers of paper \<open>i\<close> as the relation \<open>reviews\<close> has them: the students whose
  \<open>assigned_papers\<close> contain \<open>i\<close>.
\<close>

definition reviewers_of :: "assignments \<Rightarrow> string list \<Rightarrow> string \<Rightarrow> string list" where
  "reviewers_of a students i =
     filter (\<lambda>u. case a u of None \<Rightarrow> False | Some r \<Rightarrow> i \<in> set (assigned_papers r)) students"

text \<open>
  The ring in closed form: the evaluator at position \<open>i\<close> grades the students at the next
  \<open>k\<close> positions.  The loop is proved equal to it below.
\<close>

definition ring_targets :: "string list \<Rightarrow> nat \<Rightarrow> nat \<Rightarrow> string list" where
  "ring_targets sh k i = map (\<lambda>d. sh ! ((i + d) mod length sh)) [1..<Suc k]"

text \<open>The roster of scenario E1 of the specification.\<close>

definition e1_students :: "string list" where
  "e1_students = [''A'', ''B'', ''C'', ''D'', ''E'']"

section \<open>Store: \<open>stage2_db_manager.py\<close>\<close>

subsection \<open>Values handed to SQLite\<close>

text \<open>
  A key of a Python dictionary: absent (\<open>d[key]\<close> raises \<open>KeyError\<close>, \<open>d.get(key, default)\<close>
  answers the default), \<open>None\<close>, or a value.
\<close>

datatype 'a field = Missing | Null | Val 'a

text \<open>
  A value decoded from the JSON body of a request.  \<open>JFloat\<close> is a finite float, kept as a
  real; \<open>JInfinity\<close> (with its sign, \<open>True\<close> for the positive one) and \<open>JNaN\<close> are the
  floats \<open>inf\<close>, \<open>-inf\<close> and \<open>nan\<close>, which the decoder accepts.  \<open>JString\<close> is a string
  SQLite can encode.  \<open>JArray\<close> and \<open>JObject\<close> stand for any array and any object: what
  they hold never matters below.
\<close>

datatype json_value =
    JNull | JBool bool | JInt int | JFloat real | JInfinity bool | JNaN
  | JString string | JArray | JObject

text \<open>
  What \<open>sqlite3\<close> makes of a Python value bound to a \<open>?\<close> parameter: \<open>None\<close> and \<open>nan\<close>
  become \<open>NULL\<close>, a \<open>bool\<close> is an \<open>int\<close>, an \<open>int\<close> outside the signed 64-bit range raises
  \<open>OverflowError\<close>, a \<open>list\<close> or a \<open>dict\<close> raises \<open>ProgrammingError\<close>.
\<close>

datatype sql_value =
    SqlNull | SqlInteger int | SqlReal real | SqlInfinity bool | SqlText string

definition bind :: "json_value \<Rightarrow> py_error + sql_value" where
  "bind v =
     (case v of
        JNull \<Rightarrow> Inr SqlNull
      | JBool b \<Rightarrow> Inr (SqlInteger (if b then 1 else 0))
      | JInt i \<Rightarrow>
          if - (2 ^ 63) \<le> i \<and> i < 2 ^ 63 then Inr (SqlInteger i) else Inl OverflowError
      | JFloat r \<Rightarrow> Inr (SqlReal r)
      | JInfinity positive \<Rightarrow> Inr (SqlInfinity positive)
      | JNaN \<Rightarrow> Inr SqlNull
      | JString s \<Rightarrow> Inr (SqlText s)
      | JArray \<Rightarrow> Inl ProgrammingError
      | JObject \<Rightarrow> Inl ProgrammingError)"

subsection \<open>Tables\<close>

text \<open>
  Rows of the tables \<open>tokens\<close>, \<open>submissions\<close> and \<open>submission_logs\<close> created by
  \<open>DatabaseManager.init_database\<close>.  Timestamps are ISO strings in the source; they are
  instants here (\<open>int\<close>), and \<open>datetime.now()\<close> is the parameter \<open>now\<close>.  A column without
  \<open>NOT NULL\<close> is an \<open>option\<close>; this includes \<open>token\<close>, since SQLite lets a \<open>TEXT PRIMARY KEY\<close>
  hold \<open>NULL\<close>, any number of times.  \<open>tk_questions\<close> is the decoded JSON text of the
  column \<open>questions\<close>: \<open>None\<close> for the text \<open>null\<close>.
\<close>

record token_row =
  tk_token :: "string option"
  tk_evaluator_id :: string
  tk_evaluator_name :: "string option"
  tk_email :: string
  tk_target_id :: string
  tk_questions :: "string list option"
  tk_created_at :: "int option"
  tk_expires_at :: int
  tk_status :: "string option"
  tk_is_used :: "bool option"
  tk_used_at :: "int option"
  tk_ip_address :: "string option"
  tk_user_agent :: "string option"

text \<open>
  \<open>sb_question_id\<close>, \<open>sb_score\<close> and \<open>sb_comment\<close> hold the value as it was bound to the
  \<open>INSERT\<close>.  SQLite then applies the affinity of the column where it can (the integer
  5 bound to \<open>question_id\<close> is kept as the text \<open>5\<close>, the text \<open>18\<close> bound to \<open>score\<close> as the
  integer 18); this conversion is not carried out here.
\<close>

record submission_row =
  sb_id :: nat
  sb_token :: string
  sb_evaluator_id :: string
  sb_target_id :: string
  sb_question_id :: sql_value
  sb_score :: sql_value
  sb_comment :: sql_value
  sb_submitted_at :: int
  sb_ip_address :: "string option"
  sb_user_agent :: "string option"

text \<open>
  The \<open>details\<close> column of a log row.  The source writes formatted, non-ASCII messages;
  only what they carry is kept: the number of submitted scores, or the exception.
\<close>

datatype log_details = SubmittedScores nat | SubmitFailed py_error | ViewedForm

record log_row =
  lg_id :: nat
  lg_token :: "string option"
  lg_action :: string
  lg_details :: log_details
  lg_ip_address :: "string option"
  lg_user_agent :: "string option"
  lg_timestamp :: int

text \<open>The database file: every method opens its own connection on it and commits.\<close>

record database =
  tokens :: "token_row list"
  submissions :: "submission_row list"
  submission_logs :: "log_row list"

subsection \<open>Tokens\<close>

text \<open>
  The dictionary \<open>token_data\<close> passed to \<open>save_token\<close>.  Every key may be absent or
  \<open>None\<close>; a value has the type \<open>stage2_token_generator\<close> gives it.  The value of
  \<open>questions\<close> is a list of strings, or something \<open>json.dumps\<close> cannot serialise.
\<close>

datatype questions_value = Questions "string list" | NotSerializable

record token_data =
  td_token :: "string field"
  td_evaluator_id :: "string field"
  td_evaluator_name :: "string field"
  td_email :: "string field"
  td_target_id :: "string field"
  td_questions :: "questions_value field"
  td_created_at :: "int field"
  td_expires_at :: "int field"
  td_status :: "string field"
  td_used :: "bool field"

text \<open>\<open>token_data[key]\<close> and \<open>token_data.get(key, default)\<close>; \<open>None\<close> is SQL \<open>NULL\<close>.\<close>

definition subscript :: "'a field \<Rightarrow> py_error + 'a option" where
  "subscript f = (case f of Missing \<Rightarrow> Inl KeyError | Null \<Rightarrow> Inr None | Val v \<Rightarrow> Inr (Some v))"

definition get_default :: "'a field \<Rightarrow> 'a \<Rightarrow> 'a option" where
  "get_default f d = (case f of Missing \<Rightarrow> Some d | Null \<Rightarrow> None | Val v \<Rightarrow> Some v)"

text \<open>\<open>json.dumps(token_data.get('questions', []))\<close>; \<open>json.dumps(None)\<close> is the text \<open>null\<close>.\<close>

definition questions_json :: "questions_value field \<Rightarrow> py_error + string list option" where
  "questions_json f =
     (case f of
        Missing \<Rightarrow> Inr (Some [])
      | Null \<Rightarrow> Inr None
      | Val (Questions qs) \<Rightarrow> Inr (Some qs)
      | Val NotSerializable \<Rightarrow> Inl TypeError)"

text \<open>
  The row \<open>save_token\<close> asks SQLite to insert, or the exception raised on the way, in
  the order of the source: \<open>json.dumps\<close> first, then the tuple of parameters with its
  four subscripts, then the \<open>NOT NULL\<close> constraints of \<open>evaluator_id\<close>, \<open>email\<close>,
  \<open>target_id\<close> and \<open>expires_at\<close> (\<open>questions\<close> is never \<open>NULL\<close>, it is a JSON text).
\<close>

definition token_row_of :: "int \<Rightarrow> token_data \<Rightarrow> py_error + token_row" where
  "token_row_of now td =
     (case questions_json (td_questions td) of
        Inl e \<Rightarrow> Inl e
      | Inr questions \<Rightarrow>
          (case (subscript (td_token td), subscript (td_evaluator_id td),
                 subscript (td_target_id td), subscript (td_expires_at td)) of
             (Inr token, Inr evaluator_id, Inr target_id, Inr expires_at) \<Rightarrow>
               (case (evaluator_id, get_default (td_email td) [], target_id, expires_at) of
                  (Some ev, Some em, Some tg, Some ex) \<Rightarrow>
                    Inr \<lparr>tk_token = token,
                         tk_evaluator_id = ev,
                         tk_evaluator_name = get_default (td_evaluator_name td) [],
                         tk_email = em,
                         tk_target_id = tg,
                         tk_questions = questions,
                         tk_created_at = get_default (td_created_at td) now,
                         tk_expires_at = ex,
                         tk_status = get_default (td_status td) ''pending'',
                         tk_is_used = get_default (td_used td) False,
                         tk_used_at = None,
                         tk_ip_address = None,
                         tk_user_agent = None\<rparr>
                | _ \<Rightarrow> Inl IntegrityError)
           | _ \<Rightarrow> Inl KeyError))"

text \<open>
  \<open>save_token\<close>: one \<open>INSERT\<close> in a transaction of its own.  Every exception is caught,
  the transaction is rolled back and the method returns \<open>False\<close>: the ones above, and
  the \<open>sqlite3.IntegrityError\<close> of the primary key when a row with the same token string
  is stored (a \<open>NULL\<close> token conflicts with nothing).
\<close>

definition save_token :: "database \<Rightarrow> int \<Rightarrow> token_data \<Rightarrow> database \<times> bool" where
  "save_token db now td =
     (case token_row_of now td of
        Inl e \<Rightarrow> (db, False)
      | Inr row \<Rightarrow>
          if tk_token row \<noteq> None \<and> tk_token row \<in> set (map tk_token (tokens db))
          then (db, False)
          else (db\<lparr>tokens := tokens db @ [row]\<rparr>, True))"

text \<open>
  \<open>save_tokens_batch\<close>: the \<open>for token_data in tokens\<close> loop with its two counters; the
  result is \<open>(success_count, fail_count)\<close>.
\<close>

fun save_tokens_loop ::
  "database \<Rightarrow> int \<Rightarrow> token_data list \<Rightarrow> nat \<Rightarrow> nat \<Rightarrow> database \<times> nat \<times> nat" where
  "save_tokens_loop db now [] success_count fail_count = (db, success_count, fail_count)"
| "save_tokens_loop db now (td # rest) success_count fail_count =
     (case save_token db now td of
        (db', True) \<Rightarrow> save_tokens_loop db' now rest (success_count + 1) fail_count
      | (db', False) \<Rightarrow> save_tokens_loop db' now rest success_count (fail_count + 1))"

definition save_tokens_batch :: "database \<Rightarrow> int \<Rightarrow> token_data list \<Rightarrow> database \<times> nat \<times> nat" where
  "save_tokens_batch db now tds = save_tokens_loop db now tds 0 0"

text \<open>
  \<open>get_token_info\<close>: \<open>SELECT * FROM tokens WHERE token = ?\<close> and \<open>fetchone\<close>, for a token
  that is a string.
\<close>

definition get_token_info :: "database \<Rightarrow> string \<Rightarrow> token_row option" where
  "get_token_info db token = find (\<lambda>r. tk_token r = Some token) (tokens db)"

text \<open>The third component of \<open>validate_token\<close>'s result (a message in the source).\<close>

datatype token_reason = NoReason | NotExist | AlreadyUsed | BadStatus "string option" | Expired

text \<open>
  \<open>validate_token\<close>.  \<open>if token_info['is_used']\<close> reads the truth value of the column:
  \<open>NULL\<close> and 0 are false.
\<close>

definition validate_token ::
  "database \<Rightarrow> int \<Rightarrow> string \<Rightarrow> bool \<times> token_row option \<times> token_reason" where
  "validate_token db now token =
     (case get_token_info db token of
        None \<Rightarrow> (False, None, NotExist)
      | Some token_info \<Rightarrow>
          if tk_is_used token_info = Some True then (False, Some token_info, AlreadyUsed)
          else if tk_status token_info \<noteq> Some ''pending''
            then (False, Some token_info, BadStatus (tk_status token_info))
          else if now > tk_expires_at token_info then (False, Some token_info, Expired)
          else (True, Some token_info, NoReason))"

text \<open>
  \<open>mark_token_used\<close>: \<open>UPDATE tokens SET is_used = 1, status = 'submitted', used_at = ?,
  ip_address = ?, user_agent = ? WHERE token = ?\<close>; the result is \<open>cursor.rowcount > 0\<close>.
  The \<open>WHERE\<close> clause has no condition on \<open>is_used\<close> or \<open>status\<close>.
\<close>

definition set_used :: "int \<Rightarrow> string option \<Rightarrow> string option \<Rightarrow> token_row \<Rightarrow> token_row" where
  "set_used now ip ua r =
     r\<lparr>tk_is_used := Some True, tk_status := Some ''submitted'', tk_used_at := Some now,
       tk_ip_address := ip, tk_user_agent := ua\<rparr>"

definition mark_token_used ::
  "database \<Rightarrow> int \<Rightarrow> string \<Rightarrow> string option \<Rightarrow> string option \<Rightarrow> database \<times> bool" where
  "mark_token_used db now token ip ua =
     (if filter (\<lambda>r. tk_token r = Some token) (tokens db) \<noteq> []
      then (db\<lparr>tokens := map (\<lambda>r. if tk_token r = Some token then set_used now ip ua r else r)
                             (tokens db)\<rparr>, True)
      else (db, False))"

subsection \<open>Submissions and logs\<close>

text \<open>
  The dictionary \<open>submit_evaluation\<close> passes to \<open>save_submission\<close>: every key is present;
  \<open>token\<close>, \<open>evaluator_id\<close> and \<open>target_id\<close> are strings (the last two are read from the
  token row), \<open>question_id\<close>, \<open>score\<close> and \<open>comment\<close> come from the request body as they
  are.
\<close>

record submission_data =
  sd_token :: string
  sd_evaluator_id :: string
  sd_target_id :: string
  sd_question_id :: json_value
  sd_score :: json_value
  sd_comment :: json_value
  sd_ip_address :: "string option"
  sd_user_agent :: "string option"

text \<open>
  \<open>save_submission\<close>: one \<open>INSERT\<close> in a transaction of its own.  Every exception is
  caught and answered with \<open>None\<close>, and no row is stored: a parameter that cannot be
  bound, or a \<open>NULL\<close> in one of the \<open>NOT NULL\<close> columns \<open>question_id\<close> and \<open>score\<close>
  (\<open>sqlite3.IntegrityError\<close>).  Otherwise the result is \<open>cursor.lastrowid\<close>; no row is ever
  deleted, so it is the number of rows.  Foreign keys are not enforced (the connection
  never switches them on).
\<close>

definition save_submission ::
  "database \<Rightarrow> int \<Rightarrow> submission_data \<Rightarrow> database \<times> nat option" where
  "save_submission db now sd =
     (case (bind (sd_question_id sd), bind (sd_score sd), bind (sd_comment sd)) of
        (Inr q, Inr s, Inr c) \<Rightarrow>
          if q = SqlNull \<or> s = SqlNull then (db, None)
          else
            (let rowid = Suc (length (submissions db))
             in (db\<lparr>submissions := submissions db @
                      [\<lparr>sb_id = rowid, sb_token = sd_token sd,
                        sb_evaluator_id = sd_evaluator_id sd, sb_target_id = sd_target_id sd,
                        sb_question_id = q, sb_score = s, sb_comment = c,
                        sb_submitted_at = now, sb_ip_address = sd_ip_address sd,
                        sb_user_agent = sd_user_agent sd\<rparr>]\<rparr>, Some rowid))
      | _ \<Rightarrow> (db, None))"

definition log_action ::
  "database \<Rightarrow> int \<Rightarrow> string \<Rightarrow> log_details \<Rightarrow> string option \<Rightarrow> string option \<Rightarrow>
   string option \<Rightarrow> database" where
  "log_action db now action details token ip ua =
     db\<lparr>submission_logs := submission_logs db @
        [\<lparr>lg_id = Suc (length (submission_logs db)), lg_token = token, lg_action = action,
          lg_details = details, lg_ip_address = ip, lg_user_agent = ua,
          lg_timestamp = now\<rparr>]\<rparr>"

section \<open>EvaluationService: \<open>stage3_web_server.py\<close>\<close>

text \<open>
  One element of \<open>submissions\<close>, a JSON object.  A key is absent (\<open>None\<close>) or carries a
  JSON value.  \<open>se_other\<close> holds every other key the client put in the object (an
  \<open>evaluator_id\<close> or \<open>target_id\<close> of its own, say); the handler reads \<open>question_id\<close>,
  \<open>score\<close> and \<open>comment\<close> only.
\<close>

record sub_entry =
  se_question_id :: "json_value option"
  se_score :: "json_value option"
  se_comment :: "json_value option"
  se_other :: "(string \<times> string) list"

text \<open>
  An element of the list \<open>submissions\<close>: an object, or any other JSON value, on which
  \<open>sub['question_id']\<close> raises \<open>TypeError\<close>.
\<close>

datatype element = NonObject | Entry sub_entry

text \<open>
  The JSON object of the body: \<open>bd_token\<close> is the string under \<open>token\<close> and
  \<open>bd_submissions\<close> the list under \<open>submissions\<close>; \<open>None\<close> is an absent key or \<open>null\<close>.  A
  truthy value under \<open>submissions\<close> that is not a list makes the loop raise \<open>TypeError\<close>
  before anything is stored, as the list \<open>[NonObject]\<close> does.  A token that is not a
  string is not covered.
\<close>

record submit_body =
  bd_token :: "string option"
  bd_submissions :: "element list option"

text \<open>
  What \<open>request.get_json()\<close> does: it raises (no body, a body that is not JSON), or
  returns a falsy value, a value that is truthy but not an object, or an object.
\<close>

datatype json_body = Raises | Falsy | NotObject | Object submit_body

text \<open>The request: \<open>request.get_json()\<close>, \<open>request.remote_addr\<close> and the \<open>User-Agent\<close> header.\<close>

record request =
  rq_json :: json_body
  rq_remote_addr :: "string option"
  rq_user_agent :: "string option"

datatype resp_body =
    ErrInvalidRequest
  | ErrMissingFields
  | ErrToken token_reason
  | ErrTokenUsed
  | ErrSubmitFailed
  | Success "nat option list"

record response =
  http_status :: nat
  payload :: resp_body

text \<open>\<open>sub.get('comment', '')\<close>\<close>

definition comment_of :: "json_value option \<Rightarrow> json_value" where
  "comment_of f = (case f of None \<Rightarrow> JString [] | Some c \<Rightarrow> c)"

text \<open>
  The \<open>for sub in submissions\<close> loop of \<open>submit_evaluation\<close>.  \<open>sub['question_id']\<close> and
  \<open>sub['score']\<close> raise \<open>KeyError\<close> on an absent key and \<open>TypeError\<close> on an element that
  is not an object.  Every \<open>save_submission\<close> has committed when it returns, so an
  exception raised at a later element leaves the database as the earlier elements made
  it: the result carries the database in both cases.
\<close>

fun save_all ::
  "database \<Rightarrow> int \<Rightarrow> string \<Rightarrow> token_row \<Rightarrow> request \<Rightarrow> element list \<Rightarrow> nat option list \<Rightarrow>
   database \<times> (py_error + nat option list)" where
  "save_all db now token token_info rq [] submission_ids = (db, Inr submission_ids)"
| "save_all db now token token_info rq (NonObject # rest) submission_ids = (db, Inl TypeError)"
| "save_all db now token token_info rq (Entry sub # rest) submission_ids =
     (case (se_question_id sub, se_score sub) of
        (Some question_id, Some score) \<Rightarrow>
          (case save_submission db now
                  \<lparr>sd_token = token,
                   sd_evaluator_id = tk_evaluator_id token_info,
                   sd_target_id = tk_target_id token_info,
                   sd_question_id = question_id,
                   sd_score = score,
                   sd_comment = comment_of (se_comment sub),
                   sd_ip_address = rq_remote_addr rq,
                   sd_user_agent = rq_user_agent rq\<rparr> of
             (db', submission_id) \<Rightarrow>
               save_all db' now token token_info rq rest (submission_ids @ [submission_id]))
      | _ \<Rightarrow> (db, Inl KeyError))"

text \<open>
  \<open>submit_evaluation\<close>, the handler of \<open>POST /api/submit\<close>.  The whole body of the handler
  is inside \<open>try\<close>.  The \<open>except Exception\<close> branch answers 500; it logs the error when
  the local variable \<open>token\<close> exists, that is, when the exception was raised after
  \<open>token = data.get('token')\<close>.  An exception of \<open>get_json()\<close>, and the \<open>AttributeError\<close> of
  \<open>data.get\<close> on a value that is not an object, come before.
\<close>

definition submit_failed :: "database \<Rightarrow> int \<Rightarrow> string \<Rightarrow> request \<Rightarrow> py_error \<Rightarrow> database \<times> response" where
  "submit_failed db now token rq e =
     (log_action db now ''error'' (SubmitFailed e) (Some token)
        (rq_remote_addr rq) (rq_user_agent rq),
      \<lparr>http_status = 500, payload = ErrSubmitFailed\<rparr>)"

definition submit_evaluation :: "database \<Rightarrow> int \<Rightarrow> request \<Rightarrow> database \<times> response" where
  "submit_evaluation db now rq =
     (case rq_json rq of
        Raises \<Rightarrow> (db, \<lparr>http_status = 500, payload = ErrSubmitFailed\<rparr>)
      | Falsy \<Rightarrow> (db, \<lparr>http_status = 400, payload = ErrInvalidRequest\<rparr>)
      | NotObject \<Rightarrow> (db, \<lparr>http_status = 500, payload = ErrSubmitFailed\<rparr>)
      | Object data \<Rightarrow>
          (case (bd_token data, bd_submissions data) of
             (Some token, Some subs) \<Rightarrow>
               if token = [] \<or> subs = []
               then (db, \<lparr>http_status = 400, payload = ErrMissingFields\<rparr>)
               else
                 (case validate_token db now token of
                    (is_valid, token_info, error_msg) \<Rightarrow>
                      if \<not> is_valid
                      then (db, \<lparr>http_status = 403, payload = ErrToken error_msg\<rparr>)
                      else
                        (case token_info of
                           None \<Rightarrow> submit_failed db now token rq TypeError
                         | Some ti \<Rightarrow>
                             if tk_is_used ti = Some True
                             then (db, \<lparr>http_status = 400, payload = ErrTokenUsed\<rparr>)
                             else
                               (case save_all db now token ti rq subs [] of
                                  (db1, Inl e) \<Rightarrow> submit_failed db1 now token rq e
                                | (db1, Inr submission_ids) \<Rightarrow>
                                    (case mark_token_used db1 now token
                                            (rq_remote_addr rq) (rq_user_agent rq) of
                                       (db2, marked) \<Rightarrow>
                                         (log_action db2 now ''submit''
                                            (SubmittedScores (length subs)) (Some token)
                                            (rq_remote_addr rq) (rq_user_agent rq),
                                          \<lparr>http_status = 200,
                                           payload = Success submission_ids\<rparr>)))))
           | _ \<Rightarrow> (db, \<lparr>http_status = 400, payload = ErrMissingFields\<rparr>)))"
text \<open>
  What the loop of \<open>submit_evaluation\<close> does with one element, in closed form.  An element
  that is not an object, or lacks \<open>question_id\<close> or \<open>score\<close>, stops the request
  (\<open>has_keys\<close>).  An element with both keys is stored when SQLite takes it (\<open>storable\<close>):
  its three values can be bound, and neither \<open>question_id\<close> nor \<open>score\<close> is bound to
  \<open>NULL\<close>.  \<open>sent_values\<close> are the values of a storable element as they are bound;
  \<open>row_values\<close> and \<open>row_bound_to\<close> read a stored row.
\<close>

definition has_keys :: "element \<Rightarrow> bool" where
  "has_keys e \<longleftrightarrow>
     (case e of
        NonObject \<Rightarrow> False
      | Entry sub \<Rightarrow> se_question_id sub \<noteq> None \<and> se_score sub \<noteq> None)"

definition bound_values :: "element \<Rightarrow> (sql_value \<times> sql_value \<times> sql_value) option" where
  "bound_values e =
     (case e of
        NonObject \<Rightarrow> None
      | Entry sub \<Rightarrow>
          (case (se_question_id sub, se_score sub) of
             (Some q, Some s) \<Rightarrow>
               (case (bind q, bind s, bind (comment_of (se_comment sub))) of
                  (Inr q', Inr s', Inr c') \<Rightarrow> Some (q', s', c')
                | _ \<Rightarrow> None)
           | _ \<Rightarrow> None))"

definition storable :: "element \<Rightarrow> bool" where
  "storable e \<longleftrightarrow>
     (case bound_values e of
        None \<Rightarrow> False
      | Some (q, s, c) \<Rightarrow> q \<noteq> SqlNull \<and> s \<noteq> SqlNull)"

definition sent_values :: "element \<Rightarrow> sql_value \<times> sql_value \<times> sql_value" where
  "sent_values e =
     (case bound_values e of None \<Rightarrow> (SqlNull, SqlNull, SqlNull) | Some v \<Rightarrow> v)"

definition row_values :: "submission_row \<Rightarrow> sql_value \<times> sql_value \<times> sql_value" where
  "row_values r = (sb_question_id r, sb_score r, sb_comment r)"

definition row_bound_to :: "string \<Rightarrow> token_row \<Rightarrow> submission_row \<Rightarrow> bool" where
  "row_bound_to token ti r \<longleftrightarrow>
     sb_token r = token \<and> sb_evaluator_id r = tk_evaluator_id ti \<and> sb_target_id r = tk_target_id ti"

text \<open>
  \<open>erase_other\<close> drops from every element of the body the keys the handler does not read.
\<close>

definition erase_keys :: "element \<Rightarrow> element" where
  "erase_keys e = (case e of NonObject \<Rightarrow> NonObject | Entry sub \<Rightarrow> Entry (sub\<lparr>se_other := []\<rparr>))"

definition erase_other :: "request \<Rightarrow> request" where
  "erase_other rq =
     rq\<lparr>rq_json :=
        (case rq_json rq of
           Object d \<Rightarrow>
             Object (d\<lparr>bd_submissions :=
                        map_option (map erase_keys) (bd_submissions d)\<rparr>)
         | other \<Rightarrow> other)\<rparr>"

text \<open>
  What \<open>save_tokens_batch\<close> stores, in closed form.  \<open>rows_of\<close> are the rows of the tokens
  for which \<open>save_token\<close> gets as far as the \<open>INSERT\<close> with all \<open>NOT NULL\<close> columns
  filled.  The token at position \<open>i\<close> of the batch is saved when it has such a row and
  its token string is neither among \<open>stored\<close> (the token column of the table before the
  call) nor carried by a row of an earlier token of the batch; a \<open>NULL\<close> token conflicts
  with nothing.
\<close>

definition rows_of :: "int \<Rightarrow> token_data list \<Rightarrow> token_row list" where
  "rows_of now tds =
     concat (map (\<lambda>td. case token_row_of now td of Inl e \<Rightarrow> [] | Inr row \<Rightarrow> [row]) tds)"

definition saved_at :: "string option list \<Rightarrow> int \<Rightarrow> token_data list \<Rightarrow> nat \<Rightarrow> token_row list" where
  "saved_at stored now tds i =
     (case token_row_of now (tds ! i) of
        Inl e \<Rightarrow> []
      | Inr row \<Rightarrow>
          if tk_token row \<noteq> None \<and>
             tk_token row \<in> set stored \<union> set (map tk_token (rows_of now (take i tds)))
          then [] else [row])"

definition saved_rows :: "string option list \<Rightarrow> int \<Rightarrow> token_data list \<Rightarrow> token_row list" where
  "saved_rows stored now tds = concat (map (saved_at stored now tds) [0..<length tds])"

text \<open>
  Example data: a pending token minted for evaluator \<open>A\<close> and target \<open>B\<close>, a database
  holding it, the same token after a first use, and requests that present it.
\<close>

definition example_token :: token_row where
  "example_token =
     \<lparr>tk_token = Some ''tok1'', tk_evaluator_id = ''A'', tk_evaluator_name = Some ''Alice'',
      tk_email = ''a@example.org'', tk_target_id = ''B'',
      tk_questions = Some [''Q1'', ''Q2''], tk_created_at = Some 0, tk_expires_at = 604800,
      tk_status = Some ''pending'', tk_is_used = Some False, tk_used_at = None,
      tk_ip_address = None, tk_user_agent = None\<rparr>"

definition example_db :: database where
  "example_db = \<lparr>tokens = [example_token], submissions = [], submission_logs = []\<rparr>"

definition example_request :: "element list \<Rightarrow> request" where
  "example_request subs =
     \<lparr>rq_json = Object \<lparr>bd_token = Some ''tok1'', bd_submissions = Some subs\<rparr>,
      rq_remote_addr = Some ''10.0.0.1'', rq_user_agent = Some ''agent''\<rparr>"

definition entry :: "json_value option \<Rightarrow> json_value option \<Rightarrow> element" where
  "entry q s = Entry \<lparr>se_question_id = q, se_score = s, se_comment = None, se_other = []\<rparr>"

definition observe ::
  "database \<times> response \<Rightarrow>
   nat \<times> resp_body \<times> (sql_value \<times> sql_value \<times> sql_value) list \<times>
   (bool option \<times> string option) list" where
  "observe x = (case x of (db, resp) \<Rightarrow>
      (http_status resp, payload resp, map row_values (submissions db),
       map (\<lambda>t. (tk_is_used t, tk_status t)) (tokens db)))"

definition used_db :: database where
  "used_db =
     \<lparr>tokens = [set_used 100 (Some ''10.0.0.1'') (Some ''agent'') example_token],
      submissions = [], submission_logs = []\<rparr>"

definition example_token_data :: "string \<Rightarrow> token_data" where
  "example_token_data t =
     \<lparr>td_token = Val t, td_evaluator_id = Val ''A'', td_evaluator_name = Missing,
      td_email = Val ''a@example.org'', td_target_id = Val ''B'',
      td_questions = Val (Questions [''Q1'', ''Q2'']), td_created_at = Missing,
      td_expires_at = Val 604800, td_status = Missing, td_used = Missing\<rparr>"

text \<open>
  A request whose single element also carries an \<open>evaluator_id\<close> and a \<open>target_id\<close> of
  the client's choosing.
\<close>

definition redirecting_request :: request where
  "redirecting_request =
     example_request
       [Entry \<lparr>se_question_id = Some (JString ''Q1''), se_score = Some (JInt 18),
               se_comment = Some (JString ''ok''),
               se_other = [(''evaluator_id'', ''Z''), (''target_id'', ''Y'')]\<rparr>]"
section \<open>Consensus: \<open>stage5_vancouver_processor.py\<close>\<close>

text \<open>
  Python floats are real numbers here.  \<open>float('inf')\<close>, which \<open>evaluate_users\<close> stores as
  the variance of a user without grades, and \<open>None\<close> are constructors of their own.
\<close>

datatype variance = VNone | VInf | VFin real

text \<open>
  The classes \<open>User\<close> and \<open>Item\<close>.  \<open>u_grade\<close> is the dictionary \<open>grade\<close> (item to score) in
  insertion order, keyed by the item's id; the set \<open>items\<close> of a user is its key set
  (\<open>add_item\<close> updates both together).  \<open>i_users\<close> holds the names of the users of an
  item.
\<close>

record user =
  u_name :: string
  u_grade :: "(string \<times> real) list"
  u_variance :: variance
  u_reputation :: "real option"
  u_incentive_weight :: "real option"

record item =
  i_id :: string
  i_users :: "string list"
  i_grade :: "real option"
  i_variance :: "real option"

text \<open>The class \<open>EnhancedGraph\<close>: its parameters, its users and its items.\<close>

record graph =
  R_max :: real
  v_G :: real
  alpha :: real
  N :: int
  lambda_param :: real
  basic_precision :: real
  g_users :: "user list"
  g_items :: "item list"

text \<open>\<open>EnhancedGraph.__init__\<close>: \<open>self.lambda_param = R_max / v_G\<close> raises when \<open>v_G\<close> is zero.\<close>

definition EnhancedGraph :: "real \<Rightarrow> real \<Rightarrow> real \<Rightarrow> int \<Rightarrow> real \<Rightarrow> py_error + graph" where
  "EnhancedGraph R_max' v_G' alpha' N' basic_precision' =
     (if v_G' = 0 then Inl ZeroDivisionError
      else Inr \<lparr>R_max = R_max', v_G = v_G', alpha = alpha', N = N',
                lambda_param = R_max' / v_G', basic_precision = basic_precision',
                g_users = [], g_items = []\<rparr>)"

definition new_user :: "string \<Rightarrow> user" where
  "new_user name =
     \<lparr>u_name = name, u_grade = [], u_variance = VNone, u_reputation = None,
      u_incentive_weight = None\<rparr>"

definition new_item :: "string \<Rightarrow> item" where
  "new_item ident = \<lparr>i_id = ident, i_users = [], i_grade = None, i_variance = None\<rparr>"

text \<open>\<open>self.grade[item] = grade\<close>\<close>

fun dict_set :: "(string \<times> real) list \<Rightarrow> string \<Rightarrow> real \<Rightarrow> (string \<times> real) list" where
  "dict_set [] k v = [(k, v)]"
| "dict_set ((k', v') # rest) k v =
     (if k' = k then (k, v) # rest else (k', v') # dict_set rest k v)"

definition get_user :: "graph \<Rightarrow> string \<Rightarrow> user option" where
  "get_user g name = find (\<lambda>u. u_name u = name) (g_users g)"

definition get_item :: "graph \<Rightarrow> string \<Rightarrow> item option" where
  "get_item g ident = find (\<lambda>it. i_id it = ident) (g_items g)"

text \<open>\<open>add_review\<close>: get or create the user and the item, then link them.\<close>

definition add_review :: "graph \<Rightarrow> string \<Rightarrow> string \<Rightarrow> real \<Rightarrow> graph" where
  "add_review g username item_id grade =
     (let users1 = (if get_user g username = None then g_users g @ [new_user username]
                    else g_users g);
          items1 = (if get_item g item_id = None then g_items g @ [new_item item_id]
                    else g_items g)
      in g\<lparr>g_users := map (\<lambda>u. if u_name u = username
                                then u\<lparr>u_grade := dict_set (u_grade u) item_id grade\<rparr>
                                else u) users1,
            g_items := map (\<lambda>it. if i_id it = item_id
                                 then it\<lparr>i_users := (if username \<in> set (i_users it)
                                                     then i_users it
                                                     else i_users it @ [username])\<rparr>
                                 else it) items1\<rparr>)"

text \<open>\<open>np.mean\<close> and \<open>np.var\<close> (the population variance) of a non-empty list.\<close>

definition mean :: "real list \<Rightarrow> real" where
  "mean xs = sum_list xs / real (length xs)"

definition np_var :: "real list \<Rightarrow> real" where
  "np_var xs = mean (map (\<lambda>x. (x - mean xs)\<^sup>2) xs)"

text \<open>A loop over a list whose body may raise: the first exception ends it.\<close>

fun for_each :: "('a \<Rightarrow> py_error + 'b) \<Rightarrow> 'a list \<Rightarrow> py_error + 'b list" where
  "for_each f [] = Inr []"
| "for_each f (x # xs) =
     (case f x of
        Inl e \<Rightarrow> Inl e
      | Inr y \<Rightarrow> (case for_each f xs of Inl e \<Rightarrow> Inl e | Inr ys \<Rightarrow> Inr (y # ys)))"

text \<open>
  \<open>evaluate_items\<close>, for one item.  \<open>graded\<close> collects, for the users of the item that
  graded it, the grade and the weight \<open>getattr(user, 'reputation', 1.0)\<close>; the attribute
  always exists, so the weight is the reputation, possibly \<open>None\<close>, and then the product
  \<open>g * w\<close> raises \<open>TypeError\<close>.
\<close>

definition graded :: "graph \<Rightarrow> item \<Rightarrow> (real \<times> real option) list" where
  "graded g it =
     concat (map (\<lambda>name.
        case get_user g name of
          None \<Rightarrow> []
        | Some u \<Rightarrow> (case map_of (u_grade u) (i_id it) of
                       None \<Rightarrow> []
                     | Some grade \<Rightarrow> [(grade, u_reputation u)]))
        (i_users it))"

definition evaluate_item :: "graph \<Rightarrow> item \<Rightarrow> py_error + item" where
  "evaluate_item g it =
     (if i_users it = [] then Inr it
      else
        (let gw = graded g it in
         if gw = [] then Inr (it\<lparr>i_grade := Some 0, i_variance := Some 0\<rparr>)
         else if \<exists>p\<in>set gw. snd p = None then Inl TypeError
         else
           (let grades = map fst gw;
                weights = map (\<lambda>p. the (snd p)) gw;
                weighted_sum = sum_list (map2 (*) grades weights);
                total_weight = sum_list weights
            in Inr (it\<lparr>i_grade := Some (if total_weight > 0 then weighted_sum / total_weight
                                          else mean grades),
                        i_variance := Some (if length grades > 1 then np_var grades
                                            else 0)\<rparr>))))"

definition evaluate_items :: "graph \<Rightarrow> py_error + graph" where
  "evaluate_items g =
     (case for_each (evaluate_item g) (g_items g) of
        Inl e \<Rightarrow> Inl e
      | Inr items' \<Rightarrow> Inr (g\<lparr>g_items := items'\<rparr>))"

text \<open>
  \<open>evaluate_users\<close>: the differences \<open>abs(user_score - consensus_score)\<close> over the items
  of the user that have a grade, then \<open>user.variance = np.mean(differences) ** 2\<close>.
\<close>

definition differences :: "graph \<Rightarrow> user \<Rightarrow> real list" where
  "differences g u =
     concat (map (\<lambda>(item_id, user_score).
        case get_item g item_id of
          None \<Rightarrow> []
        | Some it \<Rightarrow> (case i_grade it of
                        None \<Rightarrow> []
                      | Some consensus_score \<Rightarrow> [\<bar>user_score - consensus_score\<bar>]))
        (u_grade u))"

definition evaluate_user :: "graph \<Rightarrow> user \<Rightarrow> user" where
  "evaluate_user g u =
     (if u_grade u \<noteq> []
      then (if differences g u \<noteq> []
            then u\<lparr>u_variance := VFin ((mean (differences g u))\<^sup>2)\<rparr>
            else u\<lparr>u_variance := VFin 0\<rparr>)
      else u\<lparr>u_variance := VInf\<rparr>)"

definition evaluate_users :: "graph \<Rightarrow> graph" where
  "evaluate_users g = g\<lparr>g_users := map (evaluate_user g) (g_users g)\<rparr>"

text \<open>\<open>calculate_reputation_scores\<close>\<close>

definition reputation_score :: "graph \<Rightarrow> user \<Rightarrow> real" where
  "reputation_score g u =
     (case u_variance u of
        VFin v \<Rightarrow> max 0 (R_max g - lambda_param g * sqrt (max 0 v))
      | _ \<Rightarrow> 0)"

definition calculate_reputation_scores :: "graph \<Rightarrow> graph" where
  "calculate_reputation_scores g =
     g\<lparr>g_users := map (\<lambda>u. u\<lparr>u_reputation := Some (reputation_score g u)\<rparr>) (g_users g)\<rparr>"

text \<open>
  \<open>calculate_incentive_weights\<close>: \<open>min(m_j, self.N) / self.N\<close> raises when \<open>N\<close> is zero, and
  the product with a reputation that is \<open>None\<close> raises \<open>TypeError\<close>.
\<close>

definition incentive_weight_of :: "graph \<Rightarrow> user \<Rightarrow> py_error + user" where
  "incentive_weight_of g u =
     (if N g = 0 then Inl ZeroDivisionError
      else
        (let m_j = int (length (u_grade u));
             participation_factor = real_of_int (min m_j (N g)) / real_of_int (N g)
         in case u_reputation u of
              None \<Rightarrow> Inl TypeError
            | Some reputation_factor \<Rightarrow>
                Inr (u\<lparr>u_incentive_weight := Some (participation_factor * reputation_factor)\<rparr>)))"

definition calculate_incentive_weights :: "graph \<Rightarrow> py_error + graph" where
  "calculate_incentive_weights g =
     (case for_each (incentive_weight_of g) (g_users g) of
        Inl e \<Rightarrow> Inl e
      | Inr users' \<Rightarrow> Inr (g\<lparr>g_users := users'\<rparr>))"

text \<open>
  \<open>calculate_final_grades\<close>.  A user gets an entry when an item carries the user's name
  as id and has a grade.  \<open>float(None)\<close> and \<open>alpha * None\<close> raise \<open>TypeError\<close>.
\<close>

record grade_entry =
  consensus_score :: real
  incentive_weight :: real
  final_grade :: real
  weighted_grade :: real
  protection_used :: bool
  reputation :: real
  variance_of :: variance

definition final_grade_of :: "graph \<Rightarrow> user \<Rightarrow> py_error + (string \<times> grade_entry) list" where
  "final_grade_of g u =
     (case find (\<lambda>it. i_id it = u_name u) (g_items g) of
        None \<Rightarrow> Inr []
      | Some user_item \<Rightarrow>
          (case i_grade user_item of
             None \<Rightarrow> Inr []
           | Some q_hat \<Rightarrow>
               (case u_incentive_weight u of
                  None \<Rightarrow> Inl TypeError
                | Some theta \<Rightarrow>
                    (let weighted = (1 - alpha g) * q_hat + alpha g * theta * 100;
                         final = max q_hat weighted;
                         protection = (final = q_hat \<and> weighted < q_hat)
                     in case u_reputation u of
                          None \<Rightarrow> Inl TypeError
                        | Some rep \<Rightarrow>
                            if u_variance u = VNone then Inl TypeError
                            else Inr [(u_name u,
                                       \<lparr>consensus_score = q_hat, incentive_weight = theta,
                                        final_grade = final, weighted_grade = weighted,
                                        protection_used = protection, reputation = rep,
                                        variance_of = u_variance u\<rparr>)]))))"

definition calculate_final_grades :: "graph \<Rightarrow> py_error + (string \<times> grade_entry) list" where
  "calculate_final_grades g =
     (case for_each (final_grade_of g) (g_users g) of
        Inl e \<Rightarrow> Inl e
      | Inr entries \<Rightarrow> Inr (concat entries))"

text \<open>
  \<open>evaluate_with_reputation\<close>: every reputation starts at \<open>R_max\<close>; \<open>n_iterations\<close> rounds
  of \<open>evaluate_items\<close>, \<open>evaluate_users\<close>, \<open>calculate_reputation_scores\<close>; then the incentive
  weights and the final grades.
\<close>

definition iteration :: "graph \<Rightarrow> py_error + graph" where
  "iteration g =
     (case evaluate_items g of
        Inl e \<Rightarrow> Inl e
      | Inr g' \<Rightarrow> Inr (calculate_reputation_scores (evaluate_users g')))"

fun iterations :: "nat \<Rightarrow> graph \<Rightarrow> py_error + graph" where
  "iterations 0 g = Inr g"
| "iterations (Suc n) g =
     (case iteration g of Inl e \<Rightarrow> Inl e | Inr g' \<Rightarrow> iterations n g')"

definition evaluate_with_reputation ::
  "graph \<Rightarrow> nat \<Rightarrow> py_error + (string \<times> grade_entry) list" where
  "evaluate_with_reputation g n_iterations =
     (let g0 = g\<lparr>g_users := map (\<lambda>u. u\<lparr>u_reputation := Some (R_max g)\<rparr>) (g_users g)\<rparr>
      in case iterations n_iterations g0 of
           Inl e \<Rightarrow> Inl e
         | Inr g1 \<Rightarrow>
             (case calculate_incentive_weights g1 of
                Inl e \<Rightarrow> Inl e
              | Inr g2 \<Rightarrow> calculate_final_grades g2))"

section \<open>Consensus: \<open>core/vancouver.py\<close>\<close>

text \<open>
  The final step \<open>Graph._aggregate_user_messages\<close> of the message-passing estimator, for
  one user.  A message from an item carries the item, a grade and a variance.
  \<open>DEBIAS\<close> and \<open>AGGREGATE_BY_MEDIAN\<close> are \<open>False\<close>, so the bias is \<open>0.0\<close> and \<open>aggregate\<close> is
  \<open>np.average\<close>, which raises \<open>ZeroDivisionError\<close> when the weights sum to zero.
\<close>

record msg =
  m_item :: string
  m_grade :: real
  m_variance :: real

record core_user =
  cu_name :: string
  cu_grade :: "(string \<times> real) list"
  cu_msgs :: "msg list"
  cu_variance :: "real option"
  cu_bias :: "real option"

definition aggregate :: "real list \<Rightarrow> real list \<Rightarrow> py_error + real" where
  "aggregate v weights =
     (if sum_list weights = 0 then Inl ZeroDivisionError
      else Inr (sum_list (map2 (*) v weights) / sum_list weights))"

text \<open>
  One round of the loop \<open>for m in u.msgs\<close>: the estimate
  \<open>(u.grade[m.item] - u.bias - m.item.grade) ** 2.0\<close> and the weight
  \<open>1.0 / (basic_precision + m.variance)\<close>.  \<open>item_grade\<close> gives \<open>m.item.grade\<close>.  When
  \<open>basic_precision + m.variance\<close> is zero the division has no real value (with a numpy
  float the source gets \<open>inf\<close> and then \<open>nan\<close> instead of an exception); the round then
  ends in \<open>ZeroDivisionError\<close> here.
\<close>

definition variance_estimate ::
  "real \<Rightarrow> (string \<Rightarrow> real option) \<Rightarrow> core_user \<Rightarrow> msg \<Rightarrow> py_error + (real \<times> real)" where
  "variance_estimate bp item_grade u m =
     (case map_of (cu_grade u) (m_item m) of
        None \<Rightarrow> Inl KeyError
      | Some given \<Rightarrow>
          (case item_grade (m_item m) of
             None \<Rightarrow> Inl TypeError
           | Some consensus \<Rightarrow>
               if bp + m_variance m = 0 then Inl ZeroDivisionError
               else Inr ((given - 0 - consensus)\<^sup>2, 1 / (bp + m_variance m))))"

definition aggregate_user_messages ::
  "real \<Rightarrow> (string \<Rightarrow> real option) \<Rightarrow> core_user \<Rightarrow> py_error + core_user" where
  "aggregate_user_messages bp item_grade u =
     (if cu_msgs u = [] then Inr (u\<lparr>cu_variance := None\<rparr>)
      else
        (case for_each (variance_estimate bp item_grade u) (cu_msgs u) of
           Inl e \<Rightarrow> Inl e
         | Inr ew \<Rightarrow>
             (case aggregate (map fst ew) (map snd ew) of
                Inl e \<Rightarrow> Inl e
              | Inr v \<Rightarrow> Inr (u\<lparr>cu_variance := Some v, cu_bias := Some 0\<rparr>))))"

text \<open>
  The rule of the specification for a reviewer's variance: the mean of
  \<open>(given_score - consensus)\<^sup>2\<close> over triples (given score, consensus, variance) with the
  weights \<open>1 / (basic_precision + variance)\<close> normalised to sum to 1.
\<close>

definition normalised_weights :: "real \<Rightarrow> real list \<Rightarrow> real list" where
  "normalised_weights bp vs =
     map (\<lambda>v. (1 / (bp + v)) / sum_list (map (\<lambda>v. 1 / (bp + v)) vs)) vs"

definition spec_user_variance :: "real \<Rightarrow> (real \<times> real \<times> real) list \<Rightarrow> real" where
  "spec_user_variance bp xs =
     sum_list (map2 (\<lambda>w (given, consensus, v). w * (given - consensus)\<^sup>2)
                 (normalised_weights bp (map (\<lambda>(given, consensus, v). v) xs)) xs)"

text \<open>
  The triples of a user of \<open>EnhancedGraph\<close>: for every graded item with a consensus, the
  given score, the item's consensus and the item's variance.
\<close>

definition review_triples :: "graph \<Rightarrow> user \<Rightarrow> (real \<times> real \<times> real) list" where
  "review_triples g u =
     concat (map (\<lambda>(item_id, user_score).
        case get_item g item_id of
          None \<Rightarrow> []
        | Some it \<Rightarrow> (case (i_grade it, i_variance it) of
                        (Some c, Some v) \<Rightarrow> [(user_score, c, v)]
                      | _ \<Rightarrow> []))
        (u_grade u))"

text \<open>
  Example graphs.  \<open>toy_graph\<close>: three reviewers grade two papers; \<open>u\<close> agrees with the
  consensus on \<open>a\<close> and is 2 above it on \<open>b\<close>.  \<open>e6_graph\<close>: the state of scenario E6
  before \<open>calculate_final_grades\<close> (consensus 90, incentive weight 0.1, \<open>alpha = 0.1\<close>).
\<close>

definition empty_graph :: graph where
  "empty_graph =
     \<lparr>R_max = 1, v_G = 8, alpha = 1 / 10, N = 4, lambda_param = 1 / 8,
      basic_precision = 1 / 10000, g_users = [], g_items = []\<rparr>"

definition toy_graph :: graph where
  "toy_graph =
     fold (\<lambda>(username, item_id, grade) g. add_review g username item_id grade)
       [(''u'', ''a'', 2), (''v'', ''a'', 4), (''w'', ''a'', 0),
        (''u'', ''b'', 4), (''v'', ''b'', 2), (''w'', ''b'', 0)]
       empty_graph"


text \<open>
  What \<open>calculate_final_grades\<close> promises for one entry: the weighted grade, the floor
  and the flag.
\<close>

definition floor_protected :: "graph \<Rightarrow> grade_entry \<Rightarrow> bool" where
  "floor_protected g e \<longleftrightarrow>
     weighted_grade e = (1 - alpha g) * consensus_score e + alpha g * incentive_weight e * 100 \<and>
     final_grade e = max (consensus_score e) (weighted_grade e) \<and>
     consensus_score e \<le> final_grade e \<and>
     (protection_used e \<longleftrightarrow> weighted_grade e < consensus_score e)"

text \<open>
  Invariants of the rounds of \<open>evaluate_with_reputation\<close>.  \<open>shape\<close> is what no step
  changes: the parameters, the names and grades of the users, the ids and users of the
  items.  \<open>ready\<close>: every reputation is set.  \<open>evaluated\<close>: moreover every variance is set
  and every item with a user has a grade.
\<close>

definition shape ::
  "graph \<Rightarrow> real \<times> real \<times> real \<times> int \<times> real \<times> real \<times>
     (string \<times> (string \<times> real) list) list \<times> (string \<times> string list) list" where
  "shape g = (R_max g, v_G g, alpha g, N g, lambda_param g, basic_precision g,
              map (\<lambda>u. (u_name u, u_grade u)) (g_users g),
              map (\<lambda>it. (i_id it, i_users it)) (g_items g))"

definition ready :: "graph \<Rightarrow> bool" where
  "ready g \<longleftrightarrow> (\<forall>u\<in>set (g_users g). u_reputation u \<noteq> None)"

definition evaluated :: "graph \<Rightarrow> bool" where
  "evaluated g \<longleftrightarrow>
     (\<forall>u\<in>set (g_users g). u_reputation u \<noteq> None \<and> u_variance u \<noteq> VNone) \<and>
     (\<forall>it\<in>set (g_items g). i_users it \<noteq> [] \<longrightarrow> i_grade it \<noteq> None)"

definition reputations_in_range :: "graph \<Rightarrow> bool" where
  "reputations_in_range g \<longleftrightarrow>
     (\<forall>u\<in>set (g_users g). \<exists>r. u_reputation u = Some r \<and> 0 \<le> r \<and> r \<le> R_max g)"

text \<open>
  \<open>toy_ready\<close> is \<open>toy_graph\<close> after the first step of \<open>evaluate_with_reputation\<close> (every
  reputation at \<open>R_max\<close>).  \<open>e4_graph\<close> is the graph of scenario E4: three students, each
  paper graded by the two others with its true score.
\<close>

definition toy_ready :: graph where
  "toy_ready =
     toy_graph\<lparr>g_users := map (\<lambda>u. u\<lparr>u_reputation := Some (R_max toy_graph)\<rparr>)
                              (g_users toy_graph)\<rparr>"

definition e4_graph :: graph where
  "e4_graph =
     fold (\<lambda>(username, item_id, grade) g. add_review g username item_id grade)
       [(''A'', ''B'', 80), (''A'', ''C'', 60), (''B'', ''A'', 100),
        (''B'', ''C'', 60), (''C'', ''A'', 100), (''C'', ''B'', 80)]
       empty_graph"

text \<open>A user of the core graph with two messages, and the grades of the items.\<close>

definition core_example_user :: core_user where
  "core_example_user =
     \<lparr>cu_name = ''u'', cu_grade = [(''a'', 2), (''b'', 4)],
      cu_msgs = [\<lparr>m_item = ''a'', m_grade = 2, m_variance = 1\<rparr>,
                 \<lparr>m_item = ''b'', m_grade = 2, m_variance = 3\<rparr>],
      cu_variance = None, cu_bias = None\<rparr>"

definition core_example_grades :: "string \<Rightarrow> real option" where
  "core_example_grades ident = (if ident = ''a'' \<or> ident = ''b'' then Some 2 else None)"

text \<open>
  A message of the core estimator read as a triple: the score the user gave to the item
  of the message, the grade of that item, and the variance the message carries.
\<close>

definition msg_triple ::
  "(string \<Rightarrow> real option) \<Rightarrow> core_user \<Rightarrow> msg \<Rightarrow> real \<times> real \<times> real \<Rightarrow> bool" where
  "msg_triple item_grade u m x \<longleftrightarrow>
     (case x of (given, consensus, v) \<Rightarrow>
        map_of (cu_grade u) (m_item m) = Some given \<and>
        item_grade (m_item m) = Some consensus \<and> v = m_variance m)"

text \<open>\<open>toy_scored\<close> is \<open>toy_ready\<close> after \<open>evaluate_items\<close>.\<close>

definition toy_scored :: graph where
  "toy_scored = (case evaluate_items toy_ready of Inr g \<Rightarrow> g | Inl e \<Rightarrow> toy_ready)"

text \<open>
  Users in every state of the variance: finite and small, finite and large, infinite
  (a user without grades), and not yet computed.
\<close>

definition variance_graph :: graph where
  "variance_graph =
     empty_graph
       \<lparr>g_users :=
          [\<lparr>u_name = ''p'', u_grade = [(''t'', 50)], u_variance = VFin 4,
            u_reputation = None, u_incentive_weight = None\<rparr>,
           \<lparr>u_name = ''q'', u_grade = [(''t'', 90)], u_variance = VFin 100,
            u_reputation = None, u_incentive_weight = None\<rparr>,
           \<lparr>u_name = ''r'', u_grade = [], u_variance = VInf,
            u_reputation = None, u_incentive_weight = None\<rparr>,
           \<lparr>u_name = ''s'', u_grade = [], u_variance = VNone,
            u_reputation = None, u_incentive_weight = None\<rparr>]\<rparr>"
section \<open>Properties of the Assigner\<close>

subsection \<open>Arithmetic on the ring\<close>

lemma ring_index_neq:
  assumes "i < n" "1 \<le> d" "d < n"
  shows "(i + d) mod n \<noteq> (i::nat)"
proof
  assume h: "(i + d) mod n = i"
  have "(i + d) mod n = (i mod n + d) mod n" by (simp add: mod_add_left_eq)
  show False
  proof (cases "i + d < n")
    case True
    then show False using h assms by simp
  next
    case False
    then have "(i + d) mod n = i + d - n" using assms
      by (simp add: mod_if)
    then show False using h assms False by simp
  qed
qed

lemma select_targets_ring_gen:
  "distinct sh \<Longrightarrow> i < length sh \<Longrightarrow> k + 1 \<le> length sh \<Longrightarrow>
   offset = Suc (length assigned) \<Longrightarrow> length assigned \<le> k \<Longrightarrow>
   select_targets sh False (int k) (sh ! i) i offset assigned =
         assigned @ map (\<lambda>d. sh ! ((i + d) mod length sh)) [offset..<Suc k]"
proof (induction "k - length assigned" arbitrary: offset assigned)
  case 0
  then have "length assigned = k" by simp
  then show ?case using 0 by (simp add: select_targets.simps)
next
  case (Suc m)
  let ?n = "length sh"
  let ?t = "sh ! ((i + offset) mod ?n)"
  have d: "distinct sh" and i: "i < ?n" and k: "k + 1 \<le> ?n"
    and o: "offset = Suc (length assigned)" using Suc.prems by simp_all
  have lt: "length assigned < k" using Suc.hyps(2) by simp
  have off: "1 \<le> offset" "offset < ?n" using o k lt by simp_all
  have pos: "0 < ?n" using i by linarith
  have idx: "(i + offset) mod ?n < ?n" using pos by (rule mod_less_divisor)
  have "(i + offset) mod ?n \<noteq> i" using ring_index_neq [OF i off] .
  then have neq: "?t \<noteq> sh ! i"
    using d idx i by (simp add: nth_eq_iff_index_eq)
  have m: "m = k - length (assigned @ [?t])" using Suc.hyps(2) by simp
  have rec: "select_targets sh False (int k) (sh ! i) i (Suc offset) (assigned @ [?t]) =
        (assigned @ [?t]) @ map (\<lambda>d. sh ! ((i + d) mod ?n)) [Suc offset..<Suc k]"
    using Suc.hyps(1) [OF m d i k] o lt by simp
  have upt: "[offset..<Suc k] = offset # [Suc offset..<Suc k]"
    using o lt by (simp add: upt_conv_Cons)
  have step: "select_targets sh False (int k) (sh ! i) i offset assigned =
      select_targets sh False (int k) (sh ! i) i (Suc offset) (assigned @ [?t])"
    using lt neq off by (subst select_targets.simps) (simp add: Let_def)
  show ?case unfolding step rec upt by simp
qed

lemma select_targets_ring:
  assumes "distinct sh" "i < length sh" "k + 1 \<le> length sh"
  shows "select_targets sh False (int k) (sh ! i) i 1 [] = ring_targets sh k i"
  using select_targets_ring_gen [OF assms, of 1 "[]"] by (simp add: ring_targets_def)

lemma ring_back_val:
  assumes "t < n" "d < n"
  shows "(t + n - d) mod n = (if d \<le> t then t - d else t + n - (d::nat))"
proof (cases "d \<le> t")
  case True
  then have "t + n - d = (t - d) + n" by simp
  then have "(t + n - d) mod n = (t - d) mod n" by simp
  then show ?thesis using True assms by simp
next
  case False
  then have "t + n - d < n" using assms by simp
  then show ?thesis using False by simp
qed

lemma ring_fwd_val:
  assumes "j < n" "d < n"
  shows "(j + d) mod n = (if j + d < n then j + d else j + d - (n::nat))"
  using assms by (simp add: mod_if)

lemma ring_back:
  assumes "t < n" "d < n"
  shows "((t + n - d) mod n + d) mod n = (t::nat)"
proof -
  have "(t + n - d) mod n < n" using assms by simp
  then show ?thesis
    using assms by (simp add: ring_fwd_val ring_back_val)
qed

lemma ring_back_unique:
  assumes "t < n" "j < n" "d < n" "(j + d) mod n = (t::nat)"
  shows "j = (t + n - d) mod n"
proof -
  have "(j + d) mod n = (if j + d < n then j + d else j + d - n)"
    using assms by (simp add: ring_fwd_val)
  moreover have "(t + n - d) mod n = (if d \<le> t then t - d else t + n - d)"
    using assms by (simp add: ring_back_val)
  ultimately show ?thesis using assms by (auto split: if_splits)
qed

lemma ring_back_inj:
  assumes "t < n" "k < n"
  shows "inj_on (\<lambda>d. (t + n - d) mod n) {1..k::nat}"
proof (rule inj_onI)
  fix x y assume "x \<in> {1..k}" "y \<in> {1..k}" "(t + n - x) mod n = (t + n - y) mod n"
  then show "x = y"
    using assms by (simp add: ring_back_val split: if_splits)
qed

lemma ring_sources:
  assumes "t < n" "k < n"
  shows "{j. j < n \<and> (\<exists>d. 1 \<le> d \<and> d \<le> k \<and> (j + d) mod n = t)} =
         (\<lambda>d. (t + n - d) mod n) ` {1..k::nat}"
proof (intro set_eqI iffI)
  fix j assume "j \<in> {j. j < n \<and> (\<exists>d. 1 \<le> d \<and> d \<le> k \<and> (j + d) mod n = t)}"
  then obtain d where j: "j < n" and d: "1 \<le> d" "d \<le> k" and e: "(j + d) mod n = t" by blast
  have "j = (t + n - d) mod n"
    using ring_back_unique [OF assms(1) j _ e] d assms(2) by simp
  then show "j \<in> (\<lambda>d. (t + n - d) mod n) ` {1..k}" using d by auto
next
  fix j assume "j \<in> (\<lambda>d. (t + n - d) mod n) ` {1..k}"
  then obtain d where d: "1 \<le> d" "d \<le> k" and j: "j = (t + n - d) mod n" by auto
  have "d < n" using d assms by simp
  then have "(j + d) mod n = t" unfolding j using ring_back assms(1) by blast
  moreover have "j < n" unfolding j using assms by simp
  ultimately show "j \<in> {j. j < n \<and> (\<exists>d. 1 \<le> d \<and> d \<le> k \<and> (j + d) mod n = t)}"
    using d by blast
qed

lemma ring_sources_card:
  assumes "t < n" "k < n"
  shows "card {j. j < n \<and> (\<exists>d. 1 \<le> d \<and> d \<le> k \<and> (j + d) mod n = t)} = k"
  unfolding ring_sources [OF assms]
  by (subst card_image [OF ring_back_inj [OF assms]]) simp

subsection \<open>The loops\<close>

lemma record_evaluators_ok:
  "set ps \<subseteq> dom a \<Longrightarrow>
   \<exists>a'. record_evaluators a ev ps = Inr a' \<and> dom a' = dom a \<and>
     (\<forall>s r. a s = Some r \<longrightarrow>
        a' s = Some (r\<lparr>evaluators := evaluators r @ replicate (count_list ps s) ev\<rparr>))"
proof (induction ps arbitrary: a)
  case Nil
  then show ?case by simp
next
  case (Cons p ps)
  from Cons.prems obtain r0 where r0: "a p = Some r0" by auto
  let ?a1 = "a(p \<mapsto> r0\<lparr>evaluators := evaluators r0 @ [ev]\<rparr>)"
  have d1: "dom ?a1 = dom a" using r0 by auto
  then have "set ps \<subseteq> dom ?a1" using Cons.prems by simp
  from Cons.IH [OF this] obtain a' where
    a': "record_evaluators ?a1 ev ps = Inr a'" "dom a' = dom ?a1"
    and up: "\<And>s r. ?a1 s = Some r \<Longrightarrow>
        a' s = Some (r\<lparr>evaluators := evaluators r @ replicate (count_list ps s) ev\<rparr>)"
    by blast
  have "a' s = Some (r\<lparr>evaluators := evaluators r @ replicate (count_list (p # ps) s) ev\<rparr>)"
    if "a s = Some r" for s r
  proof (cases "s = p")
    case True
    then have "?a1 s = Some (r\<lparr>evaluators := evaluators r @ [ev]\<rparr>)" using that r0 by simp
    from up [OF this] show ?thesis using True by (simp add: replicate_app_Cons_same)
  next
    case False
    then have "?a1 s = Some r" using that by simp
    from up [OF this] show ?thesis using False by simp
  qed
  then show ?case using a' d1 r0 by simp
qed

lemma assign_ring_ok:
  "snd ` set xs \<subseteq> dom a \<Longrightarrow> \<forall>x\<in>set xs. set (papers_at sh allow k x) \<subseteq> dom a \<Longrightarrow>
   distinct (map snd xs) \<Longrightarrow>
   \<exists>a'. assign_ring sh allow k a xs = Inr a' \<and> dom a' = dom a \<and>
     (\<forall>s r. a s = Some r \<longrightarrow>
        a' s = Some \<lparr>assigned_papers =
                       (case map_of (map (\<lambda>x. (snd x, papers_at sh allow k x)) xs) s of
                          None \<Rightarrow> assigned_papers r | Some p \<Rightarrow> p),
                     evaluators = evaluators r @
                       concat (map (\<lambda>x. replicate (count_list (papers_at sh allow k x) s) (snd x)) xs)\<rparr>)"
proof (induction xs arbitrary: a)
  case Nil
  then show ?case by simp
next
  case (Cons x xs)
  obtain i ev where x: "x = (i, ev)" by (cases x)
  let ?P = "papers_at sh allow k"
  from Cons.prems(1) x obtain r0 where r0: "a ev = Some r0" by auto
  let ?a1 = "a(ev \<mapsto> r0\<lparr>assigned_papers := ?P x\<rparr>)"
  have d1: "dom ?a1 = dom a" using r0 by auto
  have "set (?P x) \<subseteq> dom ?a1" using Cons.prems(2) d1 by simp
  from record_evaluators_ok [OF this, of ev] obtain a2 where
    a2: "record_evaluators ?a1 ev (?P x) = Inr a2" "dom a2 = dom ?a1"
    and up2: "\<And>s r. ?a1 s = Some r \<Longrightarrow>
        a2 s = Some (r\<lparr>evaluators := evaluators r @ replicate (count_list (?P x) s) ev\<rparr>)"
    by blast
  have p1: "snd ` set xs \<subseteq> dom a2" using Cons.prems(1) a2 d1 by auto
  have p2: "\<forall>y\<in>set xs. set (?P y) \<subseteq> dom a2" using Cons.prems(2) a2 d1 by auto
  have p3: "distinct (map snd xs)" using Cons.prems(3) by simp
  from Cons.IH [OF p1 p2 p3] obtain a' where
    a': "assign_ring sh allow k a2 xs = Inr a'" "dom a' = dom a2"
    and up: "\<And>s r. a2 s = Some r \<Longrightarrow>
        a' s = Some \<lparr>assigned_papers =
                       (case map_of (map (\<lambda>x. (snd x, ?P x)) xs) s of
                          None \<Rightarrow> assigned_papers r | Some p \<Rightarrow> p),
                     evaluators = evaluators r @
                       concat (map (\<lambda>x. replicate (count_list (?P x) s) (snd x)) xs)\<rparr>"
    by blast
  have run: "assign_ring sh allow k a (x # xs) = Inr a'"
    using r0 a2 a' x by (simp add: papers_at_def)
  have notin: "map_of (map (\<lambda>x. (snd x, ?P x)) xs) ev = None"
    using Cons.prems(3) x by (auto simp: map_of_eq_None_iff image_image)
  have "a' s = Some \<lparr>assigned_papers =
                       (case map_of (map (\<lambda>x. (snd x, ?P x)) (x # xs)) s of
                          None \<Rightarrow> assigned_papers r | Some p \<Rightarrow> p),
                     evaluators = evaluators r @
                       concat (map (\<lambda>x. replicate (count_list (?P x) s) (snd x)) (x # xs))\<rparr>"
    if "a s = Some r" for s r
  proof (cases "s = ev")
    case True
    then have "?a1 s = Some (r\<lparr>assigned_papers := ?P x\<rparr>)" using that r0 by simp
    from up [OF up2 [OF this]] show ?thesis using True notin x by (simp split: option.splits)
  next
    case False
    then have "?a1 s = Some r" using that by simp
    from up [OF up2 [OF this]] show ?thesis using False x by (simp split: option.splits)
  qed
  then show ?case using run a' a2 d1 by simp
qed

lemma dom_init_assignments_gen:
  "dom (fold (\<lambda>s a. a(s \<mapsto> \<lparr>assigned_papers = [], evaluators = []\<rparr>)) students m) =
     dom m \<union> set students"
  by (induction students arbitrary: m) auto

lemma dom_init_assignments: "dom (init_assignments students) = set students"
  by (simp add: init_assignments_def dom_init_assignments_gen)

lemma init_assignments_val_gen:
  "s \<in> set students \<Longrightarrow>
   fold (\<lambda>s a. a(s \<mapsto> \<lparr>assigned_papers = [], evaluators = []\<rparr>)) students m s =
     Some \<lparr>assigned_papers = [], evaluators = []\<rparr>"
proof (induction students arbitrary: m)
  case Nil
  then show ?case by simp
next
  case (Cons x xs)
  show ?case
  proof (cases "s \<in> set xs")
    case True
    then show ?thesis using Cons.IH by simp
  next
    case False
    then have sx: "s = x" using Cons.prems by simp
    have keep: "fold (\<lambda>s a. a(s \<mapsto> \<lparr>assigned_papers = [], evaluators = []\<rparr>)) xs m' s = m' s"
      for m' using False by (induction xs arbitrary: m') auto
    show ?thesis unfolding fold_Cons comp_def keep using sx by simp
  qed
qed

lemma init_assignments_val:
  "s \<in> set students \<Longrightarrow>
   init_assignments students s = Some \<lparr>assigned_papers = [], evaluators = []\<rparr>"
  by (simp add: init_assignments_def init_assignments_val_gen)

lemma length_ring_targets: "length (ring_targets sh k i) = k"
  by (simp add: ring_targets_def)

lemma set_ring_targets:
  "set (ring_targets sh k i) = (\<lambda>d. sh ! ((i + d) mod length sh)) ` {1..k}"
proof -
  have "set [1..<Suc k] = {1..k}" by auto
  then show ?thesis by (simp add: ring_targets_def del: upt_Suc)
qed

lemma ring_targets_subset:
  assumes "i < length sh"
  shows "set (ring_targets sh k i) \<subseteq> set sh"
proof -
  have pos: "0 < length sh" using assms by linarith
  have "sh ! ((i + d) mod length sh) \<in> set sh" for d
    using mod_less_divisor [OF pos] by (rule nth_mem)
  then show ?thesis unfolding set_ring_targets by blast
qed

lemma ring_targets_mem:
  assumes "distinct sh" "j < length sh" "t < length sh"
  shows "sh ! t \<in> set (ring_targets sh k j) \<longleftrightarrow>
         (\<exists>d. 1 \<le> d \<and> d \<le> k \<and> (j + d) mod length sh = t)"
proof -
  have pos: "0 < length sh" using assms by linarith
  have "sh ! t = sh ! ((j + d) mod length sh) \<longleftrightarrow> (j + d) mod length sh = t" for d
    using assms(1,3) mod_less_divisor [OF pos] by (auto simp: nth_eq_iff_index_eq)
  then show ?thesis unfolding set_ring_targets image_iff by auto
qed

lemma ring_targets_no_self:
  assumes "distinct sh" "i < length sh" "k < length sh"
  shows "sh ! i \<notin> set (ring_targets sh k i)"
proof
  assume "sh ! i \<in> set (ring_targets sh k i)"
  then obtain d where d: "1 \<le> d" "d \<le> k" "(i + d) mod length sh = i"
    using ring_targets_mem [OF assms(1,2,2)] by blast
  then have "d < length sh" using assms by simp
  from ring_index_neq [OF assms(2) d(1) this] d(3) show False by simp
qed

lemma distinct_ring_targets:
  assumes "distinct sh" "i < length sh" "k < length sh"
  shows "distinct (ring_targets sh k i)"
proof -
  let ?n = "length sh"
  have pos: "0 < ?n" using assms by linarith
  have inj: "inj_on (\<lambda>d. (i + d) mod ?n) (set [1..<Suc k])"
  proof (rule inj_onI)
    fix x y assume "x \<in> set [1..<Suc k]" "y \<in> set [1..<Suc k]"
      and e: "(i + x) mod ?n = (i + y) mod ?n"
    then have xy: "x < ?n" "y < ?n" using assms by auto
    have "(i + x) mod ?n = (if i + x < ?n then i + x else i + x - ?n)"
      using ring_fwd_val [OF assms(2) xy(1)] .
    moreover have "(i + y) mod ?n = (if i + y < ?n then i + y else i + y - ?n)"
      using ring_fwd_val [OF assms(2) xy(2)] .
    ultimately show "x = y" using e xy assms(2) by (auto split: if_splits)
  qed
  have d1: "distinct (map (\<lambda>d. (i + d) mod ?n) [1..<Suc k])"
    using inj by (simp add: distinct_map del: upt_Suc)
  have inj2: "inj_on (\<lambda>m. sh ! m) (set (map (\<lambda>d. (i + d) mod ?n) [1..<Suc k]))"
  proof (rule inj_onI)
    fix x y assume "x \<in> set (map (\<lambda>d. (i + d) mod ?n) [1..<Suc k])"
      "y \<in> set (map (\<lambda>d. (i + d) mod ?n) [1..<Suc k])" and e: "sh ! x = sh ! y"
    then have "x < ?n" "y < ?n" using pos by auto
    then show "x = y" using e assms(1) by (simp add: nth_eq_iff_index_eq)
  qed
  have "distinct (map (\<lambda>m. sh ! m) (map (\<lambda>d. (i + d) mod ?n) [1..<Suc k]))"
    using d1 inj2 by (simp only: distinct_map)
  then show ?thesis by (simp add: ring_targets_def comp_def del: upt_Suc)
qed

lemma ring_in_degree:
  assumes "distinct sh" "t < length sh" "k < length sh"
  shows "card {j. j < length sh \<and> sh ! t \<in> set (ring_targets sh k j)} = k"
proof -
  have "{j. j < length sh \<and> sh ! t \<in> set (ring_targets sh k j)} =
        {j. j < length sh \<and> (\<exists>d. 1 \<le> d \<and> d \<le> k \<and> (j + d) mod length sh = t)}"
    using ring_targets_mem [OF assms(1) _ assms(2)] by blast
  then show ?thesis using ring_sources_card [OF assms(2,3)] by simp
qed

lemma sum_list_indicator:
  "sum_list (map (\<lambda>x. if P x then 1 else 0) xs) = length (filter P xs)"
  by (induction xs) auto

lemma count_list_distinct:
  "distinct xs \<Longrightarrow> count_list xs y = (if y \<in> set xs then 1 else 0)"
  by (induction xs) auto

lemma length_filter_upt: "length (filter P [0..<n]) = card {j. j < n \<and> P j}"
proof -
  have "length (filter P [0..<n]) = card {i. i < length [0..<n] \<and> P ([0..<n] ! i)}"
    by (rule length_filter_conv_card)
  also have "{i. i < length [0..<n] \<and> P ([0..<n] ! i)} = {j. j < n \<and> P j}"
    by auto
  finally show ?thesis .
qed

lemma enumerate_mem:
  "x \<in> set (enumerate 0 sh) \<longleftrightarrow> fst x < length sh \<and> snd x = sh ! fst x"
  by (auto simp: in_set_enumerate_eq)

lemma papers_at_ring:
  assumes "distinct sh" "Suc K \<le> length sh" "x \<in> set (enumerate 0 sh)"
  shows "papers_at sh False (int K) x = ring_targets sh K (fst x)"
proof -
  have x: "fst x < length sh" "snd x = sh ! fst x" using assms(3) by (simp_all add: enumerate_mem)
  show ?thesis
    unfolding papers_at_def x(2)
    using select_targets_ring [OF assms(1) x(1), of K] assms(2) by simp
qed

lemma concat_replicate_indicator:
  "concat (map (\<lambda>x. replicate (if P x then 1 else 0) (f x)) xs) = map f (filter P xs)"
  by (induction xs) auto

lemma perfect_ring_result:
  assumes d: "distinct sh" and s: "set sh = set students" and K: "Suc K \<le> length sh"
  shows "\<exists>a. generate_perfect_balanced_assignments verbose students sh False (int K) = Inr a \<and>
           dom a = set students \<and>
           (\<forall>i<length sh. a (sh ! i) =
               Some \<lparr>assigned_papers = ring_targets sh K i,
                     evaluators = map (\<lambda>j. sh ! j)
                        (filter (\<lambda>j. sh ! i \<in> set (ring_targets sh K j)) [0..<length sh])\<rparr>)"
proof -
  let ?xs = "enumerate 0 sh"
  let ?a0 = "init_assignments students"
  let ?P = "papers_at sh False (int K)"
  have P: "?P x = ring_targets sh K (fst x)" if "x \<in> set ?xs" for x
    using papers_at_ring [OF d K that] .
  have p1: "snd ` set ?xs \<subseteq> dom ?a0"
  proof -
    have "snd ` set ?xs = set (map snd ?xs)" by (simp only: set_map)
    also have "\<dots> = set sh" by (simp only: map_snd_enumerate)
    finally show ?thesis using s by (simp add: dom_init_assignments)
  qed
  have p2: "\<forall>x\<in>set ?xs. set (?P x) \<subseteq> dom ?a0"
  proof
    fix x assume x: "x \<in> set ?xs"
    then have "fst x < length sh" by (simp add: enumerate_mem)
    from ring_targets_subset [OF this] show "set (?P x) \<subseteq> dom ?a0"
      using P [OF x] s by (simp add: dom_init_assignments)
  qed
  have p3: "distinct (map snd ?xs)" using d by simp
  from assign_ring_ok [OF p1 p2 p3] obtain a' where
    run: "assign_ring sh False (int K) ?a0 ?xs = Inr a'" and dom: "dom a' = dom ?a0"
    and up: "\<And>s r. ?a0 s = Some r \<Longrightarrow>
        a' s = Some \<lparr>assigned_papers =
                       (case map_of (map (\<lambda>x. (snd x, ?P x)) ?xs) s of
                          None \<Rightarrow> assigned_papers r | Some p \<Rightarrow> p),
                     evaluators = evaluators r @
                       concat (map (\<lambda>x. replicate (count_list (?P x) s) (snd x)) ?xs)\<rparr>"
    by blast
  have val: "a' (sh ! i) =
               Some \<lparr>assigned_papers = ring_targets sh K i,
                     evaluators = map (\<lambda>j. sh ! j)
                        (filter (\<lambda>j. sh ! i \<in> set (ring_targets sh K j)) [0..<length sh])\<rparr>"
    if i: "i < length sh" for i
  proof -
    have "sh ! i \<in> set sh" using i by (rule nth_mem)
    then have "sh ! i \<in> set students" unfolding s .
    note a = up [OF init_assignments_val [OF this]]
    have mem: "(i, sh ! i) \<in> set ?xs" using i by (simp add: enumerate_mem)
    have "distinct (map fst (map (\<lambda>x. (snd x, ?P x)) ?xs))"
      using d by (simp add: comp_def)
    moreover have "(sh ! i, ring_targets sh K i) \<in> set (map (\<lambda>x. (snd x, ?P x)) ?xs)"
    proof -
      have "(sh ! i, ring_targets sh K i) = (\<lambda>x. (snd x, ?P x)) (i, sh ! i)"
        using P [OF mem] by simp
      then show ?thesis unfolding set_map using mem by (rule image_eqI)
    qed
    ultimately have m: "map_of (map (\<lambda>x. (snd x, ?P x)) ?xs) (sh ! i) = Some (ring_targets sh K i)"
      by (rule map_of_is_SomeI)
    have "map (\<lambda>x. replicate (count_list (?P x) (sh ! i)) (snd x)) ?xs =
          map (\<lambda>x. replicate (if sh ! i \<in> set (ring_targets sh K (fst x)) then 1 else 0)
                  (sh ! fst x)) ?xs"
    proof (rule map_cong [OF refl])
      fix x assume x: "x \<in> set ?xs"
      then have fx: "fst x < length sh" "snd x = sh ! fst x" by (simp_all add: enumerate_mem)
      have "Suc K \<le> length sh" using K .
      then have "K < length sh" by simp
      from distinct_ring_targets [OF d fx(1) this]
      have "count_list (ring_targets sh K (fst x)) (sh ! i) =
            (if sh ! i \<in> set (ring_targets sh K (fst x)) then 1 else 0)"
        by (rule count_list_distinct)
      then show "replicate (count_list (?P x) (sh ! i)) (snd x) =
          replicate (if sh ! i \<in> set (ring_targets sh K (fst x)) then 1 else 0) (sh ! fst x)"
        using P [OF x] fx(2) by simp
    qed
    also have "\<dots> = map (\<lambda>j. replicate (if sh ! i \<in> set (ring_targets sh K j) then 1 else 0)
                  (sh ! j)) (map fst ?xs)"
      unfolding map_map comp_def ..
    also have "map fst ?xs = [0..<length sh]"
      by (simp only: map_fst_enumerate) simp
    finally have c: "concat (map (\<lambda>x. replicate (count_list (?P x) (sh ! i)) (snd x)) ?xs) =
        map (\<lambda>j. sh ! j) (filter (\<lambda>j. sh ! i \<in> set (ring_targets sh K j)) [0..<length sh])"
      by (simp only: concat_replicate_indicator)
    show ?thesis unfolding a m c by simp
  qed
  have "sh \<noteq> []" using K by auto
  then have "students \<noteq> []" using s by auto
  then have "analyze_assignments verbose students a' = Inr ()"
    by (simp add: analyze_assignments_def)
  then show ?thesis
    using run dom val
    by (simp add: generate_perfect_balanced_assignments_def dom_init_assignments)
qed

lemma ring_reviewers_card:
  assumes d: "distinct sh" and i: "i < length sh" and K: "K < length sh"
    and a: "\<forall>j<length sh. \<exists>r. a (sh ! j) = Some r \<and> assigned_papers r = ring_targets sh K j"
  shows "card {v \<in> set sh. case a v of None \<Rightarrow> False
                              | Some r \<Rightarrow> sh ! i \<in> set (assigned_papers r)} = K"
proof -
  let ?Q = "\<lambda>v. case a v of None \<Rightarrow> False | Some r \<Rightarrow> sh ! i \<in> set (assigned_papers r)"
  let ?J = "{j. j < length sh \<and> sh ! i \<in> set (ring_targets sh K j)}"
  have Q: "?Q (sh ! j) \<longleftrightarrow> sh ! i \<in> set (ring_targets sh K j)" if "j < length sh" for j
  proof -
    from a that obtain r where "a (sh ! j) = Some r" "assigned_papers r = ring_targets sh K j"
      by blast
    then show ?thesis by simp
  qed
  have "{v \<in> set sh. ?Q v} = (\<lambda>j. sh ! j) ` ?J"
  proof (intro set_eqI iffI)
    fix v assume "v \<in> {v \<in> set sh. ?Q v}"
    then have v: "v \<in> set sh" "?Q v" by simp_all
    from v(1) obtain j where j: "j < length sh" "v = sh ! j" by (auto simp: in_set_conv_nth)
    then have "j \<in> ?J" using v(2) Q by simp
    then show "v \<in> (\<lambda>j. sh ! j) ` ?J" using j(2) by (rule rev_image_eqI)
  next
    fix v assume "v \<in> (\<lambda>j. sh ! j) ` ?J"
    then obtain j where j: "j \<in> ?J" "v = sh ! j" by blast
    then have jl: "j < length sh" by simp
    then have "v \<in> set sh" unfolding j(2) by (rule nth_mem)
    moreover have "?Q v" unfolding j(2) using Q [OF jl] j(1) by simp
    ultimately show "v \<in> {v \<in> set sh. ?Q v}" by simp
  qed
  moreover have "inj_on (\<lambda>j. sh ! j) ?J"
    using d by (auto simp: inj_on_def nth_eq_iff_index_eq)
  ultimately have "card {v \<in> set sh. ?Q v} = card ?J" by (simp only: card_image)
  then show ?thesis using ring_in_degree [OF d i K] by simp
qed

lemma perfect_assignment_degrees:
  assumes ds: "distinct students" and perm: "mset shuffled = mset students"
    and k1: "1 \<le> k" and k2: "k \<le> int (length students) - 1"
  shows "\<exists>a. generate_perfect_balanced_assignments verbose students shuffled False k = Inr a \<and>
           (\<forall>u\<in>set students. \<exists>r. a u = Some r \<and>
                int (length (assigned_papers r)) = k \<and>
                distinct (assigned_papers r) \<and>
                set (assigned_papers r) \<subseteq> set students \<and>
                u \<notin> set (assigned_papers r) \<and>
                int (length (reviewers_of a students u)) = k \<and>
                int (length (evaluators r)) = k)"
proof -
  let ?sh = shuffled
  let ?K = "nat k"
  have s: "set ?sh = set students" using perm by (rule mset_eq_setD)
  have l: "length ?sh = length students" using perm by (rule mset_eq_length)
  have d: "distinct ?sh" using ds mset_eq_imp_distinct_iff [OF perm] by simp
  have kk: "int ?K = k" using k1 by simp
  have K: "Suc ?K \<le> length ?sh" using k1 k2 l by linarith
  then have K': "?K < length ?sh" by simp
  from perfect_ring_result [where verbose = verbose, OF d s K] obtain a where
    run: "generate_perfect_balanced_assignments verbose students ?sh False (int ?K) = Inr a"
    and val: "\<And>i. i < length ?sh \<Longrightarrow> a (?sh ! i) =
               Some \<lparr>assigned_papers = ring_targets ?sh ?K i,
                     evaluators = map (\<lambda>j. ?sh ! j)
                        (filter (\<lambda>j. ?sh ! i \<in> set (ring_targets ?sh ?K j)) [0..<length ?sh])\<rparr>"
    by blast
  have all: "\<forall>j<length ?sh. \<exists>r. a (?sh ! j) = Some r \<and> assigned_papers r = ring_targets ?sh ?K j"
    using val by simp
  have "\<exists>r. a u = Some r \<and>
                int (length (assigned_papers r)) = k \<and>
                distinct (assigned_papers r) \<and>
                set (assigned_papers r) \<subseteq> set students \<and>
                u \<notin> set (assigned_papers r) \<and>
                int (length (reviewers_of a students u)) = k \<and>
                int (length (evaluators r)) = k"
    if "u \<in> set students" for u
  proof -
    have "u \<in> set ?sh" unfolding s using that .
    then obtain i where i: "i < length ?sh" "u = ?sh ! i"
      by (auto simp: in_set_conv_nth)
    let ?r = "\<lparr>assigned_papers = ring_targets ?sh ?K i,
                evaluators = map (\<lambda>j. ?sh ! j)
                   (filter (\<lambda>j. ?sh ! i \<in> set (ring_targets ?sh ?K j)) [0..<length ?sh])\<rparr>"
    have au: "a u = Some ?r" unfolding i(2) using val [OF i(1)] .
    have c1: "int (length (assigned_papers ?r)) = k" using kk by (simp add: length_ring_targets)
    have c2: "distinct (assigned_papers ?r)" using distinct_ring_targets [OF d i(1) K'] by simp
    have c3: "set (assigned_papers ?r) \<subseteq> set students"
      using ring_targets_subset [OF i(1), of ?K] s by simp
    have c4: "u \<notin> set (assigned_papers ?r)"
      unfolding i(2) using ring_targets_no_self [OF d i(1) K'] by simp
    have "length (reviewers_of a students u) =
          card ({v. case a v of None \<Rightarrow> False | Some r \<Rightarrow> u \<in> set (assigned_papers r)} \<inter> set students)"
      unfolding reviewers_of_def using ds by (rule distinct_length_filter)
    also have "{v. case a v of None \<Rightarrow> False | Some r \<Rightarrow> u \<in> set (assigned_papers r)} \<inter> set students
        = {v \<in> set ?sh. case a v of None \<Rightarrow> False | Some r \<Rightarrow> ?sh ! i \<in> set (assigned_papers r)}"
      unfolding s i(2) by blast
    also have "card \<dots> = ?K" using ring_reviewers_card [OF d i(1) K' all] .
    finally have c5: "int (length (reviewers_of a students u)) = k" using kk by simp
    have "length (evaluators ?r) =
          length (filter (\<lambda>j. ?sh ! i \<in> set (ring_targets ?sh ?K j)) [0..<length ?sh])" by simp
    also have "\<dots> = card {j. j < length ?sh \<and> ?sh ! i \<in> set (ring_targets ?sh ?K j)}"
      by (rule length_filter_upt)
    also have "\<dots> = ?K" using ring_in_degree [OF d i(1) K'] .
    finally have c6: "int (length (evaluators ?r)) = k" using kk by simp
    show ?thesis using au c1 c2 c3 c4 c5 c6 by blast
  qed
  then show ?thesis using run kk by auto
qed

text \<open>
  The empty roster: nothing is assigned, and under the verbose setting
  \<open>_analyze_assignments\<close> raises \<open>ValueError\<close>.
\<close>

lemma empty_roster:
  "generate_perfect_balanced_assignments verbose [] [] allow_self k =
     (if verbose then Inl ValueError else Inr Map.empty)"
  by (simp add: generate_perfect_balanced_assignments_def analyze_assignments_def
        init_assignments_def enumerate_eq_zip)

subsection \<open>Scenario E1 evaluated\<close>

lemma e1_identity_verbose:
  "(case generate_perfect_balanced_assignments True e1_students e1_students False 2 of
      Inr a \<Rightarrow> map a e1_students | Inl e \<Rightarrow> []) =
   [Some \<lparr>assigned_papers = [''B'', ''C''], evaluators = [''D'', ''E'']\<rparr>,
    Some \<lparr>assigned_papers = [''C'', ''D''], evaluators = [''A'', ''E'']\<rparr>,
    Some \<lparr>assigned_papers = [''D'', ''E''], evaluators = [''A'', ''B'']\<rparr>,
    Some \<lparr>assigned_papers = [''E'', ''A''], evaluators = [''B'', ''C'']\<rparr>,
    Some \<lparr>assigned_papers = [''A'', ''B''], evaluators = [''C'', ''D'']\<rparr>]"
  by code_simp

lemma e1_identity_quiet:
  "(case generate_perfect_balanced_assignments False e1_students e1_students False 2 of
      Inr a \<Rightarrow> map a e1_students | Inl e \<Rightarrow> []) =
   [Some \<lparr>assigned_papers = [''B'', ''C''], evaluators = [''D'', ''E'']\<rparr>,
    Some \<lparr>assigned_papers = [''C'', ''D''], evaluators = [''A'', ''E'']\<rparr>,
    Some \<lparr>assigned_papers = [''D'', ''E''], evaluators = [''A'', ''B'']\<rparr>,
    Some \<lparr>assigned_papers = [''E'', ''A''], evaluators = [''B'', ''C'']\<rparr>,
    Some \<lparr>assigned_papers = [''A'', ''B''], evaluators = [''C'', ''D'']\<rparr>]"
  by code_simp

lemma e1_identity_eval:
  "(case generate_perfect_balanced_assignments verbose e1_students e1_students False 2 of
      Inr a \<Rightarrow> map a e1_students | Inl e \<Rightarrow> []) =
   [Some \<lparr>assigned_papers = [''B'', ''C''], evaluators = [''D'', ''E'']\<rparr>,
    Some \<lparr>assigned_papers = [''C'', ''D''], evaluators = [''A'', ''E'']\<rparr>,
    Some \<lparr>assigned_papers = [''D'', ''E''], evaluators = [''A'', ''B'']\<rparr>,
    Some \<lparr>assigned_papers = [''E'', ''A''], evaluators = [''B'', ''C'']\<rparr>,
    Some \<lparr>assigned_papers = [''A'', ''B''], evaluators = [''C'', ''D'']\<rparr>]"
  by (cases verbose) (simp_all only: e1_identity_verbose e1_identity_quiet)

lemma ring_targets_two:
  "length sh = 5 \<Longrightarrow> ring_targets sh 2 i = [sh ! ((i + 1) mod 5), sh ! ((i + 2) mod 5)]"
  by (simp add: ring_targets_def upt_rec)

subsection \<open>Claims about the Assigner\<close>

text \<open>
  C6.  For a roster of \<open>n\<close> distinct students, \<open>1 \<le> k \<le> n - 1\<close> and
  \<open>allow_self = False\<close>, perfect mode returns an assignment (no exception), whatever
  permutation the shuffle produced and whether the configuration is verbose or not, in
  which every student has exactly \<open>k\<close> distinct
  assigned papers, all of them students, none of them the student's own; every paper has
  exactly \<open>k\<close> reviewers, counted through the relation (\<open>reviewers_of\<close>) and through the
  \<open>evaluators\<close> list the code keeps.
\<close>

theorem C6_perfect_mode_balanced:
  assumes "distinct students" and "mset shuffled = mset students"
    and "1 \<le> k" and "k \<le> int (length students) - 1"
  shows "\<exists>a. generate_perfect_balanced_assignments verbose students shuffled False k = Inr a \<and>
           (\<forall>u\<in>set students. \<exists>r. a u = Some r \<and>
                int (length (assigned_papers r)) = k \<and>
                distinct (assigned_papers r) \<and>
                set (assigned_papers r) \<subseteq> set students \<and>
                u \<notin> set (assigned_papers r) \<and>
                int (length (reviewers_of a students u)) = k \<and>
                int (length (evaluators r)) = k)"
  using assms by (rule perfect_assignment_degrees)

theorem C6_perfect_mode_balanced_witness:
  "\<exists>a. generate_perfect_balanced_assignments True [''A'', ''B'', ''C''] [''B'', ''C'', ''A''] False 1 = Inr a \<and>
           (\<forall>u\<in>set [''A'', ''B'', ''C'']. \<exists>r. a u = Some r \<and>
                int (length (assigned_papers r)) = 1 \<and>
                distinct (assigned_papers r) \<and>
                set (assigned_papers r) \<subseteq> set [''A'', ''B'', ''C''] \<and>
                u \<notin> set (assigned_papers r) \<and>
                int (length (reviewers_of a [''A'', ''B'', ''C''] u)) = 1 \<and>
                int (length (evaluators r)) = 1)"
  using C6_perfect_mode_balanced [where students = "[''A'', ''B'', ''C'']"
      and shuffled = "[''B'', ''C'', ''A'']" and k = 1 and verbose = True]
  by simp

text \<open>
  C7, as stated, fails.  \<open>random.shuffle(shuffled_students)\<close> is called whatever the seed
  is, and the ring is laid over the shuffled order.  With the order
  \<open>[C, B, A, E, D]\<close> (the one CPython's generator yields after \<open>random.seed(0)\<close>),
  student \<open>A\<close> is assigned \<open>[E, D]\<close>, not \<open>[B, C]\<close>.
\<close>

theorem C7_counterexample:
  "(case generate_perfect_balanced_assignments True e1_students
           [''C'', ''B'', ''A'', ''E'', ''D''] False 2 of
      Inr a \<Rightarrow> map_option assigned_papers (a ''A'') | Inl e \<Rightarrow> None) = Some [''E'', ''D'']"
  by code_simp

text \<open>
  C7, amended.  For the five students of E1 with \<open>k = 2\<close> and \<open>allow_self = False\<close>, and
  for every order \<open>shuffled\<close> the shuffle may produce: the student at position \<open>i\<close> of
  \<open>shuffled\<close> is assigned the students at positions \<open>i + 1\<close> and \<open>i + 2\<close> (modulo 5), and
  every paper has exactly two reviewers.  When the shuffled order is the roster itself,
  the assignment is exactly the one of E1.
\<close>

theorem C7_ring_over_shuffled_order:
  assumes "mset shuffled = mset e1_students"
  shows "\<exists>a. generate_perfect_balanced_assignments verbose e1_students shuffled False 2 = Inr a \<and>
           (\<forall>i<5. \<exists>r. a (shuffled ! i) = Some r \<and>
               assigned_papers r = [shuffled ! ((i + 1) mod 5), shuffled ! ((i + 2) mod 5)]) \<and>
           (\<forall>t\<in>set e1_students. length (reviewers_of a e1_students t) = 2) \<and>
           (shuffled = e1_students \<longrightarrow> map a e1_students =
              [Some \<lparr>assigned_papers = [''B'', ''C''], evaluators = [''D'', ''E'']\<rparr>,
               Some \<lparr>assigned_papers = [''C'', ''D''], evaluators = [''A'', ''E'']\<rparr>,
               Some \<lparr>assigned_papers = [''D'', ''E''], evaluators = [''A'', ''B'']\<rparr>,
               Some \<lparr>assigned_papers = [''E'', ''A''], evaluators = [''B'', ''C'']\<rparr>,
               Some \<lparr>assigned_papers = [''A'', ''B''], evaluators = [''C'', ''D'']\<rparr>])"
proof -
  have ds: "distinct e1_students" by (simp add: e1_students_def)
  have s: "set shuffled = set e1_students" using assms by (rule mset_eq_setD)
  have l: "length shuffled = 5" using mset_eq_length [OF assms] by (simp add: e1_students_def)
  have d: "distinct shuffled" using ds mset_eq_imp_distinct_iff [OF assms] by simp
  have K: "Suc 2 \<le> length shuffled" using l by simp
  from perfect_ring_result [where verbose = verbose, OF d s K] obtain a where
    run: "generate_perfect_balanced_assignments verbose e1_students shuffled False (int 2) = Inr a"
    and val: "\<And>i. i < length shuffled \<Longrightarrow> a (shuffled ! i) =
               Some \<lparr>assigned_papers = ring_targets shuffled 2 i,
                     evaluators = map (\<lambda>j. shuffled ! j)
                        (filter (\<lambda>j. shuffled ! i \<in> set (ring_targets shuffled 2 j))
                           [0..<length shuffled])\<rparr>"
    by blast
  have run2: "generate_perfect_balanced_assignments verbose e1_students shuffled False 2 = Inr a"
    using run by simp
  have ring: "\<forall>i<5. \<exists>r. a (shuffled ! i) = Some r \<and>
               assigned_papers r = [shuffled ! ((i + 1) mod 5), shuffled ! ((i + 2) mod 5)]"
    using val l by (simp add: ring_targets_two)
  have k2: "(2::int) \<le> int (length e1_students) - 1" by (simp add: e1_students_def)
  from perfect_assignment_degrees [where verbose = verbose, OF ds assms _ k2] obtain a' where
    run': "generate_perfect_balanced_assignments verbose e1_students shuffled False 2 = Inr a'"
    and deg': "\<forall>u\<in>set e1_students. \<exists>r. a' u = Some r \<and>
                int (length (assigned_papers r)) = 2 \<and>
                distinct (assigned_papers r) \<and>
                set (assigned_papers r) \<subseteq> set e1_students \<and>
                u \<notin> set (assigned_papers r) \<and>
                int (length (reviewers_of a' e1_students u)) = 2 \<and>
                int (length (evaluators r)) = 2"
    by auto
  have aa: "a' = a" using run' run2 by simp
  have deg: "\<forall>t\<in>set e1_students. length (reviewers_of a e1_students t) = 2"
    using deg' unfolding aa by auto
  have e1: "map a e1_students =
              [Some \<lparr>assigned_papers = [''B'', ''C''], evaluators = [''D'', ''E'']\<rparr>,
               Some \<lparr>assigned_papers = [''C'', ''D''], evaluators = [''A'', ''E'']\<rparr>,
               Some \<lparr>assigned_papers = [''D'', ''E''], evaluators = [''A'', ''B'']\<rparr>,
               Some \<lparr>assigned_papers = [''E'', ''A''], evaluators = [''B'', ''C'']\<rparr>,
               Some \<lparr>assigned_papers = [''A'', ''B''], evaluators = [''C'', ''D'']\<rparr>]"
    if "shuffled = e1_students"
    using e1_identity_eval [of verbose] run2 unfolding that by simp
  show ?thesis
  proof (intro exI conjI impI)
    show "generate_perfect_balanced_assignments verbose e1_students shuffled False 2 = Inr a"
      by (rule run2)
  qed (rule ring, rule deg, erule e1)
qed

theorem C7_ring_over_shuffled_order_witness:
  "\<exists>a. generate_perfect_balanced_assignments True e1_students e1_students False 2 = Inr a \<and>
        (\<forall>i<5. \<exists>r. a (e1_students ! i) = Some r \<and>
            assigned_papers r = [e1_students ! ((i + 1) mod 5), e1_students ! ((i + 2) mod 5)]) \<and>
        (\<forall>t\<in>set e1_students. length (reviewers_of a e1_students t) = 2) \<and>
        map a e1_students =
              [Some \<lparr>assigned_papers = [''B'', ''C''], evaluators = [''D'', ''E'']\<rparr>,
               Some \<lparr>assigned_papers = [''C'', ''D''], evaluators = [''A'', ''E'']\<rparr>,
               Some \<lparr>assigned_papers = [''D'', ''E''], evaluators = [''A'', ''B'']\<rparr>,
               Some \<lparr>assigned_papers = [''E'', ''A''], evaluators = [''B'', ''C'']\<rparr>,
               Some \<lparr>assigned_papers = [''A'', ''B''], evaluators = [''C'', ''D'']\<rparr>]"
  using C7_ring_over_shuffled_order [where shuffled = e1_students and verbose = True, OF refl]
  by (simp only: simp_thms)

section \<open>Properties of the Store and the EvaluationService\<close>

subsection \<open>The loop of submit_evaluation\<close>

lemma save_submission_entry:
  assumes "se_question_id sub = Some q" and "se_score sub = Some s"
  shows "\<exists>new sid.
           save_submission db now
             \<lparr>sd_token = token, sd_evaluator_id = tk_evaluator_id ti,
              sd_target_id = tk_target_id ti, sd_question_id = q, sd_score = s,
              sd_comment = comment_of (se_comment sub),
              sd_ip_address = ip, sd_user_agent = ua\<rparr> =
             (db\<lparr>submissions := submissions db @ new\<rparr>, sid) \<and>
           map row_values new = map sent_values (filter storable [Entry sub]) \<and>
           (\<forall>r\<in>set new. row_bound_to token ti r)"
proof (cases "storable (Entry sub)")
  case True
  then obtain q' s' c' where
    b: "bind q = Inr q'" "bind s = Inr s'" "bind (comment_of (se_comment sub)) = Inr c'"
    and n: "q' \<noteq> SqlNull" "s' \<noteq> SqlNull"
    using assms by (auto simp: storable_def bound_values_def split: sum.splits)
  let ?row = "\<lparr>sb_id = Suc (length (submissions db)), sb_token = token,
               sb_evaluator_id = tk_evaluator_id ti, sb_target_id = tk_target_id ti,
               sb_question_id = q', sb_score = s', sb_comment = c',
               sb_submitted_at = now, sb_ip_address = ip, sb_user_agent = ua\<rparr>"
  have "save_submission db now
             \<lparr>sd_token = token, sd_evaluator_id = tk_evaluator_id ti,
              sd_target_id = tk_target_id ti, sd_question_id = q, sd_score = s,
              sd_comment = comment_of (se_comment sub),
              sd_ip_address = ip, sd_user_agent = ua\<rparr> =
          (db\<lparr>submissions := submissions db @ [?row]\<rparr>, Some (Suc (length (submissions db))))"
    using b n by (simp add: save_submission_def)
  moreover have "map row_values [?row] = map sent_values (filter storable [Entry sub])"
    using True assms b by (simp add: row_values_def sent_values_def bound_values_def)
  moreover have "\<forall>r\<in>set [?row]. row_bound_to token ti r"
    by (simp add: row_bound_to_def)
  ultimately show ?thesis by blast
next
  case False
  then have "save_submission db now
             \<lparr>sd_token = token, sd_evaluator_id = tk_evaluator_id ti,
              sd_target_id = tk_target_id ti, sd_question_id = q, sd_score = s,
              sd_comment = comment_of (se_comment sub),
              sd_ip_address = ip, sd_user_agent = ua\<rparr> = (db, None)"
    using assms
    by (auto simp: save_submission_def storable_def bound_values_def split: sum.splits)
  moreover have "db = db\<lparr>submissions := submissions db @ []\<rparr>" by simp
  ultimately have "save_submission db now
             \<lparr>sd_token = token, sd_evaluator_id = tk_evaluator_id ti,
              sd_target_id = tk_target_id ti, sd_question_id = q, sd_score = s,
              sd_comment = comment_of (se_comment sub),
              sd_ip_address = ip, sd_user_agent = ua\<rparr> =
             (db\<lparr>submissions := submissions db @ []\<rparr>, None)" by simp
  moreover have "map row_values [] = map sent_values (filter storable [Entry sub])"
    using False by simp
  ultimately show ?thesis by (intro exI [of _ "[]"] exI [of _ None]) simp
qed

lemma save_all_char:
  "\<exists>new. fst (save_all db now token ti rq subs ids) = db\<lparr>submissions := submissions db @ new\<rparr> \<and>
         map row_values new = map sent_values (filter storable (takeWhile has_keys subs)) \<and>
         (\<forall>r\<in>set new. row_bound_to token ti r) \<and>
         (list_all has_keys subs \<longrightarrow>
            (\<exists>ids'. snd (save_all db now token ti rq subs ids) = Inr (ids @ ids') \<and>
                    length ids' = length subs)) \<and>
         (\<not> list_all has_keys subs \<longrightarrow>
            (\<exists>e. snd (save_all db now token ti rq subs ids) = Inl e))"
proof (induction subs arbitrary: db ids)
  case Nil
  have "db = db\<lparr>submissions := submissions db @ []\<rparr>" by simp
  then show ?case by (intro exI [of _ "[]"]) simp
next
  case (Cons el subs)
  show ?case
  proof (cases "has_keys el")
    case False
    have sa: "\<exists>e. save_all db now token ti rq (el # subs) ids = (db, Inl e)"
    proof (cases el)
      case NonObject
      then show ?thesis by simp
    next
      case (Entry sub)
      then show ?thesis using False by (auto simp: has_keys_def split: option.splits)
    qed
    then obtain e where sa: "save_all db now token ti rq (el # subs) ids = (db, Inl e)" by blast
    have tw: "takeWhile has_keys (el # subs) = []" using False by simp
    have la: "\<not> list_all has_keys (el # subs)" using False by simp
    have "db = db\<lparr>submissions := submissions db @ []\<rparr>" by simp
    then show ?thesis unfolding sa tw using la by (intro exI [of _ "[]"]) simp
  next
    case True
    then obtain sub q s where el: "el = Entry sub"
      and qs: "se_question_id sub = Some q" "se_score sub = Some s"
      by (cases el) (auto simp: has_keys_def)
    from save_submission_entry [OF qs, of db now token ti "rq_remote_addr rq" "rq_user_agent rq"]
    obtain new1 sid where
      s1: "save_submission db now
             \<lparr>sd_token = token, sd_evaluator_id = tk_evaluator_id ti,
              sd_target_id = tk_target_id ti, sd_question_id = q, sd_score = s,
              sd_comment = comment_of (se_comment sub),
              sd_ip_address = rq_remote_addr rq, sd_user_agent = rq_user_agent rq\<rparr> =
             (db\<lparr>submissions := submissions db @ new1\<rparr>, sid)"
      and n1: "map row_values new1 = map sent_values (filter storable [el])"
        "\<forall>r\<in>set new1. row_bound_to token ti r"
      unfolding el by blast
    let ?db1 = "db\<lparr>submissions := submissions db @ new1\<rparr>"
    have step: "save_all db now token ti rq (el # subs) ids =
                save_all ?db1 now token ti rq subs (ids @ [sid])"
      using qs s1 unfolding el by simp
    from Cons.IH [of ?db1 "ids @ [sid]"] obtain new2 where
      n2: "fst (save_all ?db1 now token ti rq subs (ids @ [sid])) =
             ?db1\<lparr>submissions := submissions ?db1 @ new2\<rparr>"
        "map row_values new2 = map sent_values (filter storable (takeWhile has_keys subs))"
        "\<forall>r\<in>set new2. row_bound_to token ti r"
        "list_all has_keys subs \<longrightarrow>
            (\<exists>ids'. snd (save_all ?db1 now token ti rq subs (ids @ [sid])) = Inr ((ids @ [sid]) @ ids') \<and>
                    length ids' = length subs)"
        "\<not> list_all has_keys subs \<longrightarrow>
            (\<exists>e. snd (save_all ?db1 now token ti rq subs (ids @ [sid])) = Inl e)"
      by blast
    have a: "fst (save_all db now token ti rq (el # subs) ids) =
               db\<lparr>submissions := submissions db @ (new1 @ new2)\<rparr>"
      unfolding step n2(1) by simp
    have b: "map row_values (new1 @ new2) =
               map sent_values (filter storable (takeWhile has_keys (el # subs)))"
      using True n1(1) n2(2) by simp
    have c: "\<forall>r\<in>set (new1 @ new2). row_bound_to token ti r" using n1(2) n2(3) by auto
    have d: "list_all has_keys (el # subs) \<longrightarrow>
            (\<exists>ids'. snd (save_all db now token ti rq (el # subs) ids) = Inr (ids @ ids') \<and>
                    length ids' = length (el # subs))"
    proof
      assume "list_all has_keys (el # subs)"
      then have "list_all has_keys subs" by simp
      with n2(4) obtain ids' where
        "snd (save_all ?db1 now token ti rq subs (ids @ [sid])) = Inr ((ids @ [sid]) @ ids')"
        "length ids' = length subs" by blast
      then have "snd (save_all db now token ti rq (el # subs) ids) = Inr (ids @ (sid # ids')) \<and>
                 length (sid # ids') = length (el # subs)"
        unfolding step by simp
      then show "\<exists>ids'. snd (save_all db now token ti rq (el # subs) ids) = Inr (ids @ ids') \<and>
                    length ids' = length (el # subs)" by blast
    qed
    have e: "\<not> list_all has_keys (el # subs) \<longrightarrow>
            (\<exists>e. snd (save_all db now token ti rq (el # subs) ids) = Inl e)"
      unfolding step using True n2(5) by simp
    show ?thesis using a b c d e by blast
  qed
qed

subsection \<open>mark_token_used\<close>

lemma tk_token_set_used: "tk_token (set_used now ip ua r) = tk_token r"
  by (simp add: set_used_def)

lemma find_map_set_used:
  "find (\<lambda>r. tk_token r = Some t)
        (map (\<lambda>r. if tk_token r = Some token then set_used now ip ua r else r) xs) =
   map_option (\<lambda>r. if tk_token r = Some token then set_used now ip ua r else r)
        (find (\<lambda>r. tk_token r = Some t) xs)"
  by (induction xs) (simp_all add: tk_token_set_used)

lemma mark_token_used_absent:
  assumes "get_token_info db token = None"
  shows "mark_token_used db now token ip ua = (db, False)"
proof -
  have "\<forall>r\<in>set (tokens db). tk_token r \<noteq> Some token"
    using assms by (simp add: get_token_info_def find_None_iff)
  then have "filter (\<lambda>r. tk_token r = Some token) (tokens db) = []"
    by (simp add: filter_empty_conv)
  then show ?thesis by (simp add: mark_token_used_def)
qed

lemma mark_token_used_present:
  assumes "get_token_info db token = Some r"
  shows "\<exists>db'. mark_token_used db now token ip ua = (db', True) \<and>
           get_token_info db' token = Some (set_used now ip ua r) \<and>
           (\<forall>t. t \<noteq> token \<longrightarrow> get_token_info db' t = get_token_info db t) \<and>
           length (tokens db') = length (tokens db) \<and>
           submissions db' = submissions db \<and> submission_logs db' = submission_logs db"
proof -
  let ?f = "\<lambda>r. if tk_token r = Some token then set_used now ip ua r else r"
  let ?db' = "db\<lparr>tokens := map ?f (tokens db)\<rparr>"
  have f: "find (\<lambda>r. tk_token r = Some token) (tokens db) = Some r"
    using assms by (simp add: get_token_info_def)
  then have rt: "tk_token r = Some token" "r \<in> set (tokens db)"
    by (auto simp: find_Some_iff)
  then have "filter (\<lambda>r. tk_token r = Some token) (tokens db) \<noteq> []"
    by (auto simp: filter_empty_conv)
  then have m: "mark_token_used db now token ip ua = (?db', True)"
    by (simp add: mark_token_used_def)
  have g: "get_token_info ?db' token = Some (set_used now ip ua r)"
    using f rt(1) by (simp add: get_token_info_def find_map_set_used)
  have o: "get_token_info ?db' t = get_token_info db t" if "t \<noteq> token" for t
  proof (cases "find (\<lambda>r. tk_token r = Some t) (tokens db)")
    case None
    then show ?thesis by (simp add: get_token_info_def find_map_set_used)
  next
    case (Some x)
    then have "tk_token x = Some t" by (auto simp: find_Some_iff)
    then show ?thesis using Some that by (simp add: get_token_info_def find_map_set_used)
  qed
  show ?thesis using m g o by simp
qed

subsection \<open>save_tokens_batch\<close>

lemma rows_of_Cons:
  "rows_of now (td # tds) = rows_of now [td] @ rows_of now tds"
  by (simp add: rows_of_def)

lemma saved_at_Suc:
  "saved_at stored now (td # tds) (Suc i) =
   saved_at (stored @ map tk_token (rows_of now [td])) now tds i"
proof -
  have tk: "take (Suc i) (td # tds) = td # take i tds" by simp
  have nth: "(td # tds) ! Suc i = tds ! i" by simp
  have h: "set stored \<union> set (map tk_token (rows_of now (td # take i tds))) =
        set (stored @ map tk_token (rows_of now [td])) \<union>
        set (map tk_token (rows_of now (take i tds)))"
    by (subst rows_of_Cons) auto
  show ?thesis unfolding saved_at_def tk nth h ..
qed

lemma saved_rows_Cons:
  "saved_rows stored now (td # tds) =
   saved_at stored now (td # tds) 0 @
   saved_rows (stored @ map tk_token (rows_of now [td])) now tds"
proof -
  have "[0..<length (td # tds)] = 0 # map Suc [0..<length tds]"
    by (simp add: upt_conv_Cons map_Suc_upt del: upt_Suc)
  then show ?thesis
    by (simp add: saved_rows_def comp_def saved_at_Suc del: upt_Suc)
qed

lemma saved_rows_cong:
  assumes "set stored = set stored'"
  shows "saved_rows stored now tds = saved_rows stored' now tds"
  unfolding saved_rows_def saved_at_def assms ..

lemma length_saved_rows: "length (saved_rows stored now tds) \<le> length tds"
proof -
  have one: "length (saved_at stored now tds i) \<le> 1" for i
    by (simp add: saved_at_def split: sum.splits)
  have "length (concat (map f xs)) \<le> length xs" if "\<And>i. length (f i) \<le> 1"
    for f :: "nat \<Rightarrow> token_row list" and xs
  proof (induction xs)
    case Nil
    then show ?case by simp
  next
    case (Cons x xs)
    then show ?case using that [of x] by simp
  qed
  from this [of "saved_at stored now tds" "[0..<length tds]", OF one]
  show ?thesis by (simp add: saved_rows_def)
qed

lemma save_token_step:
  "save_token db now td =
     (db\<lparr>tokens := tokens db @ saved_at (map tk_token (tokens db)) now (td # tds) 0\<rparr>,
      saved_at (map tk_token (tokens db)) now (td # tds) 0 \<noteq> [])"
proof -
  have "db = db\<lparr>tokens := tokens db @ []\<rparr>" by simp
  then show ?thesis
    by (simp add: save_token_def saved_at_def rows_of_def split: sum.splits)
qed

lemma saved_rows_after_save_token:
  "saved_rows (map tk_token (tokens db) @ map tk_token (rows_of now [td])) now tds =
   saved_rows (map tk_token (tokens (fst (save_token db now td)))) now tds"
proof (rule saved_rows_cong)
  show "set (map tk_token (tokens db) @ map tk_token (rows_of now [td])) =
        set (map tk_token (tokens (fst (save_token db now td))))"
    by (auto simp: save_token_def rows_of_def split: sum.splits)
qed

lemma save_tokens_loop_char:
  "save_tokens_loop db now tds s f =
     (db\<lparr>tokens := tokens db @ saved_rows (map tk_token (tokens db)) now tds\<rparr>,
      s + length (saved_rows (map tk_token (tokens db)) now tds),
      f + (length tds - length (saved_rows (map tk_token (tokens db)) now tds)))"
proof (induction tds arbitrary: db s f)
  case Nil
  have "db = db\<lparr>tokens := tokens db @ []\<rparr>" by simp
  then show ?case by (simp add: saved_rows_def)
next
  case (Cons td tds)
  let ?stored = "map tk_token (tokens db)"
  let ?new = "saved_at ?stored now (td # tds) 0"
  let ?db1 = "db\<lparr>tokens := tokens db @ ?new\<rparr>"
  have st: "save_token db now td = (?db1, ?new \<noteq> [])" by (rule save_token_step)
  let ?rest = "saved_rows (map tk_token (tokens ?db1)) now tds"
  have rows: "saved_rows ?stored now (td # tds) = ?new @ ?rest"
    using saved_rows_after_save_token [of db now td tds]
    by (simp add: saved_rows_Cons st)
  have le: "length ?rest \<le> length tds" by (rule length_saved_rows)
  have one: "length ?new \<le> 1" by (simp add: saved_at_def split: sum.splits)
  show ?case
  proof (cases "?new = []")
    case True
    have "save_tokens_loop db now (td # tds) s f = save_tokens_loop ?db1 now tds s (f + 1)"
      using st True by simp
    also have "\<dots> = (?db1\<lparr>tokens := tokens ?db1 @ ?rest\<rparr>, s + length ?rest,
                      f + 1 + (length tds - length ?rest))"
      by (rule Cons.IH)
    finally show ?thesis unfolding rows using True le by simp
  next
    case False
    then have l1: "length ?new = 1" using one by (cases ?new) simp_all
    have "save_tokens_loop db now (td # tds) s f = save_tokens_loop ?db1 now tds (s + 1) f"
      using st False by simp
    also have "\<dots> = (?db1\<lparr>tokens := tokens ?db1 @ ?rest\<rparr>, s + 1 + length ?rest,
                      f + (length tds - length ?rest))"
      by (rule Cons.IH)
    finally show ?thesis unfolding rows using l1 by simp
  qed
qed

subsection \<open>submit_evaluation\<close>

lemma validate_token_True:
  "validate_token db now token = (True, info, msg) \<Longrightarrow>
   \<exists>ti. info = Some ti \<and> msg = NoReason \<and> get_token_info db token = Some ti \<and>
        tk_is_used ti \<noteq> Some True \<and> tk_status ti = Some ''pending'' \<and> now \<le> tk_expires_at ti"
  by (auto simp: validate_token_def split: option.splits if_splits)

lemma validate_token_pending:
  "get_token_info db token = Some ti \<Longrightarrow> tk_is_used ti \<noteq> Some True \<Longrightarrow>
   tk_status ti = Some ''pending'' \<Longrightarrow>
   now \<le> tk_expires_at ti \<Longrightarrow> validate_token db now token = (True, Some ti, NoReason)"
  by (simp add: validate_token_def)

lemma get_token_info_cong:
  "tokens db' = tokens db \<Longrightarrow> get_token_info db' t = get_token_info db t"
  by (simp add: get_token_info_def)

lemma log_action_fields:
  "tokens (log_action db now a d t ip ua) = tokens db"
  "submissions (log_action db now a d t ip ua) = submissions db"
  by (simp_all add: log_action_def)

lemma submit_falsy:
  "rq_json rq = Falsy \<Longrightarrow>
   submit_evaluation db now rq = (db, \<lparr>http_status = 400, payload = ErrInvalidRequest\<rparr>)"
  by (simp add: submit_evaluation_def)

lemma submit_no_object:
  "rq_json rq = Raises \<or> rq_json rq = NotObject \<Longrightarrow>
   submit_evaluation db now rq = (db, \<lparr>http_status = 500, payload = ErrSubmitFailed\<rparr>)"
  by (auto simp: submit_evaluation_def)

lemma submit_missing_fields:
  "rq_json rq = Object d \<Longrightarrow>
   bd_token d = None \<or> bd_token d = Some [] \<or> bd_submissions d = None \<or> bd_submissions d = Some [] \<Longrightarrow>
   submit_evaluation db now rq = (db, \<lparr>http_status = 400, payload = ErrMissingFields\<rparr>)"
  by (auto simp: submit_evaluation_def split: option.splits)

lemma submit_invalid_token:
  "rq_json rq = Object d \<Longrightarrow> bd_token d = Some token \<Longrightarrow> bd_submissions d = Some subs \<Longrightarrow>
   token \<noteq> [] \<Longrightarrow> subs \<noteq> [] \<Longrightarrow> validate_token db now token = (False, info, msg) \<Longrightarrow>
   submit_evaluation db now rq = (db, \<lparr>http_status = 403, payload = ErrToken msg\<rparr>)"
  by (simp add: submit_evaluation_def)

lemma submit_valid:
  assumes j: "rq_json rq = Object d" "bd_token d = Some token" "bd_submissions d = Some subs"
    and ne: "token \<noteq> []" "subs \<noteq> []"
    and ti: "get_token_info db token = Some ti" "tk_is_used ti \<noteq> Some True"
      "tk_status ti = Some ''pending''" "now \<le> tk_expires_at ti"
  shows "\<exists>db' resp new. submit_evaluation db now rq = (db', resp) \<and>
           submissions db' = submissions db @ new \<and>
           map row_values new = map sent_values (filter storable (takeWhile has_keys subs)) \<and>
           (\<forall>r\<in>set new. row_bound_to token ti r) \<and>
           (list_all has_keys subs \<longrightarrow>
              http_status resp = 200 \<and>
              (\<exists>ids. payload resp = Success ids \<and> length ids = length subs) \<and>
              get_token_info db' token =
                Some (set_used now (rq_remote_addr rq) (rq_user_agent rq) ti) \<and>
              (\<forall>t. t \<noteq> token \<longrightarrow> get_token_info db' t = get_token_info db t)) \<and>
           (\<not> list_all has_keys subs \<longrightarrow>
              http_status resp = 500 \<and> payload resp = ErrSubmitFailed \<and>
              tokens db' = tokens db)"
proof -
  have v: "validate_token db now token = (True, Some ti, NoReason)"
    using ti by (rule validate_token_pending)
  obtain db1 res where sa: "save_all db now token ti rq subs [] = (db1, res)"
    by (cases "save_all db now token ti rq subs []")
  from save_all_char [of db now token ti rq subs "[]"] obtain new where
    n: "db1 = db\<lparr>submissions := submissions db @ new\<rparr>"
      "map row_values new = map sent_values (filter storable (takeWhile has_keys subs))"
      "\<forall>r\<in>set new. row_bound_to token ti r"
    and ok: "list_all has_keys subs \<longrightarrow> (\<exists>ids'. res = Inr ids' \<and> length ids' = length subs)"
    and ko: "\<not> list_all has_keys subs \<longrightarrow> (\<exists>e. res = Inl e)"
    unfolding sa by auto
  have t1: "tokens db1 = tokens db" and s1: "submissions db1 = submissions db @ new"
    using n(1) by simp_all
  show ?thesis
  proof (cases "list_all has_keys subs")
    case False
    then obtain e where res: "res = Inl e" using ko by blast
    let ?db' = "log_action db1 now ''error'' (SubmitFailed e) (Some token)
        (rq_remote_addr rq) (rq_user_agent rq)"
    have run: "submit_evaluation db now rq =
                 (?db', \<lparr>http_status = 500, payload = ErrSubmitFailed\<rparr>)"
      using j ne v ti(2) sa res by (simp add: submit_evaluation_def submit_failed_def)
    have "submissions ?db' = submissions db @ new" "tokens ?db' = tokens db"
      using s1 t1 by (simp_all add: log_action_fields)
    then show ?thesis using run n(2,3) False by simp
  next
    case True
    then obtain ids where res: "res = Inr ids" "length ids = length subs" using ok by blast
    have "get_token_info db1 token = Some ti"
      using ti(1) get_token_info_cong [OF t1] by simp
    from mark_token_used_present [OF this, of now "rq_remote_addr rq" "rq_user_agent rq"]
    obtain db2 where
      m: "mark_token_used db1 now token (rq_remote_addr rq) (rq_user_agent rq) = (db2, True)"
      and g2: "get_token_info db2 token =
                 Some (set_used now (rq_remote_addr rq) (rq_user_agent rq) ti)"
      and o2: "\<forall>t. t \<noteq> token \<longrightarrow> get_token_info db2 t = get_token_info db1 t"
      and s2: "submissions db2 = submissions db1"
      by blast
    let ?db' = "log_action db2 now ''submit'' (SubmittedScores (length subs)) (Some token)
        (rq_remote_addr rq) (rq_user_agent rq)"
    have run: "submit_evaluation db now rq =
                 (?db', \<lparr>http_status = 200, payload = Success ids\<rparr>)"
      using j ne v ti(2) sa res(1) m by (simp add: submit_evaluation_def)
    have gi: "get_token_info ?db' t = get_token_info db2 t" for t
      by (rule get_token_info_cong) (simp add: log_action_fields)
    have a: "submissions ?db' = submissions db @ new"
      using s1 s2 by (simp add: log_action_fields)
    have b: "get_token_info ?db' token =
                Some (set_used now (rq_remote_addr rq) (rq_user_agent rq) ti)"
      using g2 gi by simp
    have c: "\<forall>t. t \<noteq> token \<longrightarrow> get_token_info ?db' t = get_token_info db t"
      using o2 gi get_token_info_cong [OF t1] by simp
    show ?thesis using run a b c n(2,3) True res(2) by simp
  qed
qed

lemma submit_rows_bound:
  "\<exists>new. submissions (fst (submit_evaluation db now rq)) = submissions db @ new \<and>
     (\<forall>r\<in>set new. \<exists>d ti. rq_json rq = Object d \<and> bd_token d = Some (sb_token r) \<and>
          get_token_info db (sb_token r) = Some ti \<and>
          sb_evaluator_id r = tk_evaluator_id ti \<and> sb_target_id r = tk_target_id ti)"
proof -
  have unchanged: ?thesis if "submissions (fst (submit_evaluation db now rq)) = submissions db"
    using that by (intro exI [of _ "[]"]) simp
  show ?thesis
  proof (cases "rq_json rq")
    case Raises
    then show ?thesis by (intro unchanged) (simp add: submit_no_object)
  next
    case Falsy
    then show ?thesis by (intro unchanged) (simp add: submit_falsy)
  next
    case NotObject
    then show ?thesis by (intro unchanged) (simp add: submit_no_object)
  next
    case (Object d)
    show ?thesis
    proof (cases "bd_token d = None \<or> bd_token d = Some [] \<or>
                  bd_submissions d = None \<or> bd_submissions d = Some []")
      case True
      from submit_missing_fields [OF Object True] show ?thesis by (intro unchanged) simp
    next
      case False
      then obtain token subs where
        d: "bd_token d = Some token" "bd_submissions d = Some subs" "token \<noteq> []" "subs \<noteq> []"
        by auto
      obtain v info msg where val: "validate_token db now token = (v, info, msg)"
        by (cases "validate_token db now token")
      show ?thesis
      proof (cases v)
        case False
        with val have "validate_token db now token = (False, info, msg)" by simp
        from submit_invalid_token [OF Object d this]
        show ?thesis by (intro unchanged) simp
      next
        case True
        with val have "validate_token db now token = (True, info, msg)" by simp
        from validate_token_True [OF this] obtain ti where
          ti: "get_token_info db token = Some ti" "tk_is_used ti \<noteq> Some True"
            "tk_status ti = Some ''pending''" "now \<le> tk_expires_at ti" by blast
        from submit_valid [OF Object d ti] obtain db' resp new where
          r: "submit_evaluation db now rq = (db', resp)"
            "submissions db' = submissions db @ new"
            "\<forall>r\<in>set new. row_bound_to token ti r"
          by blast
        have "\<forall>r\<in>set new. \<exists>d ti. rq_json rq = Object d \<and> bd_token d = Some (sb_token r) \<and>
          get_token_info db (sb_token r) = Some ti \<and>
          sb_evaluator_id r = tk_evaluator_id ti \<and> sb_target_id r = tk_target_id ti"
          using r(3) Object d(1) ti(1) by (auto simp: row_bound_to_def)
        then show ?thesis using r(1,2) by auto
      qed
    qed
  qed
qed

lemma save_all_erase_other:
  "save_all db now token ti rq' (map erase_keys subs) ids =
   save_all db now token ti rq subs ids"
  if "rq_remote_addr rq' = rq_remote_addr rq" "rq_user_agent rq' = rq_user_agent rq"
  using that
proof (induction subs arbitrary: db ids)
  case Nil
  then show ?case by simp
next
  case (Cons el subs)
  then show ?case
    by (cases el) (simp_all add: erase_keys_def split: prod.splits option.splits)
qed

lemma submit_erase_other:
  "submit_evaluation db now (erase_other rq) = submit_evaluation db now rq"
proof (cases "rq_json rq")
  case Raises
  then show ?thesis by (simp add: submit_evaluation_def erase_other_def)
next
  case Falsy
  then show ?thesis by (simp add: submit_evaluation_def erase_other_def)
next
  case NotObject
  then show ?thesis by (simp add: submit_evaluation_def erase_other_def)
next
  case (Object d)
  have a: "rq_remote_addr (erase_other rq) = rq_remote_addr rq"
    "rq_user_agent (erase_other rq) = rq_user_agent rq"
    by (simp_all add: erase_other_def)
  show ?thesis
  proof (cases "bd_submissions d")
    case None
    then show ?thesis using Object
      by (simp add: submit_evaluation_def erase_other_def split: option.splits)
  next
    case (Some subs)
    note sa = save_all_erase_other [OF a]
    show ?thesis
      using Object Some sa
      by (simp add: submit_evaluation_def erase_other_def submit_failed_def
               cong: prod.case_cong option.case_cong if_cong sum.case_cong)
  qed
qed

subsection \<open>Claims about the Store and the EvaluationService\<close>



lemma example_request_fields:
  "rq_json (example_request subs) = Object \<lparr>bd_token = Some ''tok1'', bd_submissions = Some subs\<rparr>"
  "rq_remote_addr (example_request subs) = Some ''10.0.0.1''"
  "rq_user_agent (example_request subs) = Some ''agent''"
  by (simp_all add: example_request_def)

lemma example_db_token: "get_token_info example_db ''tok1'' = Some example_token"
  by (simp add: get_token_info_def example_db_def example_token_def)

lemma example_token_fields:
  "tk_is_used example_token = Some False" "tk_status example_token = Some ''pending''"
  "tk_expires_at example_token = 604800" "tk_evaluator_id example_token = ''A''"
  "tk_target_id example_token = ''B''" "tk_questions example_token = Some [''Q1'', ''Q2'']"
  by (simp_all add: example_token_def)

lemma entry_facts:
  "has_keys (entry q s) \<longleftrightarrow> q \<noteq> None \<and> s \<noteq> None"
  "\<not> has_keys NonObject"
  "storable (entry (Some (JString a)) (Some (JInt i))) \<longleftrightarrow> - (2 ^ 63) \<le> i \<and> i < 2 ^ 63"
  "storable (entry (Some (JInt 5)) (Some (JFloat r)))"
  "\<not> storable (entry (Some (JString a)) (Some JArray))"
  "sent_values (entry (Some (JString a)) (Some (JInt 18))) = (SqlText a, SqlInteger 18, SqlText [])"
  "sent_values (entry (Some (JString a)) (Some (JInt 999))) = (SqlText a, SqlInteger 999, SqlText [])"
  "sent_values (entry (Some (JInt 5)) (Some (JFloat r))) = (SqlInteger 5, SqlReal r, SqlText [])"
  by (simp_all add: has_keys_def storable_def sent_values_def bound_values_def bind_def
        entry_def comment_of_def)


text \<open>
  C4, as stated, fails.  The \<open>UPDATE\<close> of \<open>mark_token_used\<close> selects the row by
  \<open>token\<close> alone.  On a token used at instant 100 from \<open>10.0.0.1\<close>, a second call at
  instant 200 succeeds and overwrites \<open>used_at\<close>, \<open>ip_address\<close> and \<open>user_agent\<close>.
\<close>

theorem C4_counterexample:
  "map (\<lambda>t. (tk_is_used t, tk_used_at t, tk_ip_address t, tk_user_agent t)) (tokens used_db) =
     [(Some True, Some 100, Some ''10.0.0.1'', Some ''agent'')] \<and>
   (case mark_token_used used_db 200 ''tok1'' (Some ''10.0.0.2'') (Some ''other'') of
      (db', ok) \<Rightarrow>
        (ok, map (\<lambda>t. (tk_is_used t, tk_used_at t, tk_ip_address t, tk_user_agent t))
               (tokens db'))) =
     (True, [(Some True, Some 200, Some ''10.0.0.2'', Some ''other'')])"
  by code_simp

text \<open>
  C4, amended.  When no token with the given string is stored, \<open>mark_token_used\<close>
  answers \<open>False\<close> and changes nothing.  When one is stored, whatever its state (also
  when it is already used), the call answers \<open>True\<close> and sets \<open>is_used\<close>,
  \<open>status = 'submitted'\<close>, \<open>used_at\<close>, \<open>ip_address\<close> and \<open>user_agent\<close> on it; the other
  tokens, the submissions and the logs are unchanged.
\<close>

theorem C4_mark_token_used_by_token_only:
  "(get_token_info db token = None \<longrightarrow> mark_token_used db now token ip ua = (db, False)) \<and>
   (\<forall>r. get_token_info db token = Some r \<longrightarrow>
      (\<exists>db'. mark_token_used db now token ip ua = (db', True) \<and>
         get_token_info db' token =
           Some (r\<lparr>tk_is_used := Some True, tk_status := Some ''submitted'',
                   tk_used_at := Some now, tk_ip_address := ip, tk_user_agent := ua\<rparr>) \<and>
         (\<forall>t. t \<noteq> token \<longrightarrow> get_token_info db' t = get_token_info db t) \<and>
         submissions db' = submissions db \<and> submission_logs db' = submission_logs db))"
proof (intro conjI allI impI)
  assume "get_token_info db token = None"
  then show "mark_token_used db now token ip ua = (db, False)"
    by (rule mark_token_used_absent)
next
  fix r assume "get_token_info db token = Some r"
  from mark_token_used_present [OF this, of now ip ua]
  show "\<exists>db'. mark_token_used db now token ip ua = (db', True) \<and>
         get_token_info db' token =
           Some (r\<lparr>tk_is_used := Some True, tk_status := Some ''submitted'',
                   tk_used_at := Some now, tk_ip_address := ip, tk_user_agent := ua\<rparr>) \<and>
         (\<forall>t. t \<noteq> token \<longrightarrow> get_token_info db' t = get_token_info db t) \<and>
         submissions db' = submissions db \<and> submission_logs db' = submission_logs db"
    unfolding set_used_def by blast
qed

lemma used_db_token:
  "get_token_info used_db ''tok1'' =
     Some (set_used 100 (Some ''10.0.0.1'') (Some ''agent'') example_token)"
  by (simp add: get_token_info_def used_db_def example_token_def set_used_def)

lemma used_db_absent: "get_token_info used_db ''nope'' = None"
  by (simp add: get_token_info_def used_db_def example_token_def set_used_def)

theorem C4_mark_token_used_by_token_only_witness:
  "mark_token_used used_db 200 ''nope'' None None = (used_db, False) \<and>
   (\<exists>db'. mark_token_used used_db 200 ''tok1'' (Some ''10.0.0.2'') None = (db', True) \<and>
      map_option tk_used_at (get_token_info db' ''tok1'') = Some (Some 200) \<and>
      map_option tk_ip_address (get_token_info db' ''tok1'') = Some (Some ''10.0.0.2''))"
  using C4_mark_token_used_by_token_only [of used_db "''nope''" 200 None None]
    C4_mark_token_used_by_token_only [of used_db "''tok1''" 200 "Some ''10.0.0.2''" None]
  by (auto simp: used_db_token used_db_absent)

text \<open>
  C5, as stated, fails.  The handler never compares the body with the token's
  \<open>questions\<close>, with a maximal score or with a bound on the comment.  The token of the
  example asks for \<open>Q1\<close> and \<open>Q2\<close>; a body with the single question \<open>Q9\<close> and the score
  999 is accepted (200), its row is stored and the token is marked used.
\<close>

theorem C5_counterexample:
  "tk_questions example_token = Some [''Q1'', ''Q2''] \<and>
   observe (submit_evaluation example_db 10
      (example_request [entry (Some (JString ''Q9'')) (Some (JInt 999))])) =
     (200, Success [Some 1], [(SqlText ''Q9'', SqlInteger 999, SqlText [])],
      [(Some True, Some ''submitted'')])"
  by code_simp

text \<open>
  C5, amended.  Before any state change the handler checks the body for presence only.
  When \<open>get_json()\<close> returns a falsy value, or the \<open>token\<close> or \<open>submissions\<close> of the object
  it returns is missing or empty, the answer is 400 and the database is unchanged; when
  \<open>get_json()\<close> raises or returns something that is not an object, the answer is 500 and
  the database is unchanged.  For a valid pending token, a body whose elements are all
  objects with a \<open>question_id\<close> and a \<open>score\<close> is answered 200 whatever these values
  are, and the token is marked used.  The rows added are those of the elements SQLite
  takes (every value can be bound, \<open>question_id\<close> and \<open>score\<close> are not \<open>NULL\<close>), in the
  order of the body, with \<open>question_id\<close>, \<open>score\<close> and \<open>comment\<close> as they were sent; the
  other elements are skipped.  So there is one row per element when SQLite takes every
  element.
\<close>

theorem C5_body_checked_for_presence_only:
  "(rq_json rq = Falsy \<or>
    (\<exists>d. rq_json rq = Object d \<and>
         (bd_token d = None \<or> bd_token d = Some [] \<or>
          bd_submissions d = None \<or> bd_submissions d = Some [])) \<longrightarrow>
      (\<exists>resp. submit_evaluation db now rq = (db, resp) \<and> http_status resp = 400)) \<and>
   (rq_json rq = Raises \<or> rq_json rq = NotObject \<longrightarrow>
      (\<exists>resp. submit_evaluation db now rq = (db, resp) \<and> http_status resp = 500)) \<and>
   (\<forall>d token subs ti.
      rq_json rq = Object d \<and> bd_token d = Some token \<and> bd_submissions d = Some subs \<and>
      token \<noteq> [] \<and> subs \<noteq> [] \<and>
      get_token_info db token = Some ti \<and> tk_is_used ti \<noteq> Some True \<and>
      tk_status ti = Some ''pending'' \<and> now \<le> tk_expires_at ti \<and>
      list_all has_keys subs \<longrightarrow>
      (\<exists>db' resp new. submit_evaluation db now rq = (db', resp) \<and>
          http_status resp = 200 \<and>
          submissions db' = submissions db @ new \<and>
          map row_values new = map sent_values (filter storable subs) \<and>
          (list_all storable subs \<longrightarrow> length new = length subs) \<and>
          get_token_info db' token =
            Some (set_used now (rq_remote_addr rq) (rq_user_agent rq) ti)))"
proof (intro conjI allI impI)
  assume a: "rq_json rq = Falsy \<or>
    (\<exists>d. rq_json rq = Object d \<and>
         (bd_token d = None \<or> bd_token d = Some [] \<or>
          bd_submissions d = None \<or> bd_submissions d = Some []))"
  show "\<exists>resp. submit_evaluation db now rq = (db, resp) \<and> http_status resp = 400"
  proof (cases "rq_json rq = Falsy")
    case True
    then show ?thesis by (simp add: submit_falsy)
  next
    case False
    with a obtain d where d: "rq_json rq = Object d"
      "bd_token d = None \<or> bd_token d = Some [] \<or>
          bd_submissions d = None \<or> bd_submissions d = Some []" by blast
    from submit_missing_fields [OF d] show ?thesis by simp
  qed
next
  assume "rq_json rq = Raises \<or> rq_json rq = NotObject"
  from submit_no_object [OF this]
  show "\<exists>resp. submit_evaluation db now rq = (db, resp) \<and> http_status resp = 500" by simp
next
  fix d token subs ti
  assume h: "rq_json rq = Object d \<and> bd_token d = Some token \<and> bd_submissions d = Some subs \<and>
      token \<noteq> [] \<and> subs \<noteq> [] \<and>
      get_token_info db token = Some ti \<and> tk_is_used ti \<noteq> Some True \<and>
      tk_status ti = Some ''pending'' \<and> now \<le> tk_expires_at ti \<and>
      list_all has_keys subs"
  then have keys: "list_all has_keys subs" by simp
  then have tw: "takeWhile has_keys subs = subs" by (simp add: list_all_iff)
  from h have p: "rq_json rq = Object d" "bd_token d = Some token" "bd_submissions d = Some subs"
    "token \<noteq> []" "subs \<noteq> []" "get_token_info db token = Some ti" "tk_is_used ti \<noteq> Some True"
    "tk_status ti = Some ''pending''" "now \<le> tk_expires_at ti" by simp_all
  from submit_valid [OF p] keys obtain db' resp new where
    r: "submit_evaluation db now rq = (db', resp)"
      "submissions db' = submissions db @ new"
      "map row_values new = map sent_values (filter storable (takeWhile has_keys subs))"
      "http_status resp = 200"
      "get_token_info db' token =
                Some (set_used now (rq_remote_addr rq) (rq_user_agent rq) ti)"
    by blast
  have len: "length new = length subs" if "list_all storable subs"
  proof -
    have "filter storable subs = subs" using that by (simp add: list_all_iff)
    then have "map row_values new = map sent_values subs" using r(3) tw by simp
    then have "length (map row_values new) = length (map sent_values subs)" by (rule arg_cong)
    then show ?thesis by simp
  qed
  show "\<exists>db' resp new. submit_evaluation db now rq = (db', resp) \<and>
          http_status resp = 200 \<and>
          submissions db' = submissions db @ new \<and>
          map row_values new = map sent_values (filter storable subs) \<and>
          (list_all storable subs \<longrightarrow> length new = length subs) \<and>
          get_token_info db' token =
            Some (set_used now (rq_remote_addr rq) (rq_user_agent rq) ti)"
    using r tw len by auto
qed

theorem C5_body_checked_for_presence_only_witness:
  "(\<exists>resp. submit_evaluation example_db 10 (example_request []) = (example_db, resp) \<and>
        http_status resp = 400) \<and>
   (\<exists>resp. submit_evaluation example_db 10
          \<lparr>rq_json = Raises, rq_remote_addr = None, rq_user_agent = None\<rparr> = (example_db, resp) \<and>
        http_status resp = 500) \<and>
   (\<exists>db' resp new. submit_evaluation example_db 10
          (example_request [entry (Some (JString ''Q9'')) (Some (JInt 999)),
                            entry (Some (JString ''Q1'')) (Some (JInt (2 ^ 63))),
                            entry (Some (JInt 5)) (Some (JFloat (37 / 2))),
                            entry (Some (JString ''Q2'')) (Some JArray)]) = (db', resp) \<and>
        http_status resp = 200 \<and>
        submissions db' = submissions example_db @ new \<and>
        map row_values new = [(SqlText ''Q9'', SqlInteger 999, SqlText []),
                              (SqlInteger 5, SqlReal (37 / 2), SqlText [])])"
proof (intro conjI)
  show "\<exists>resp. submit_evaluation example_db 10 (example_request []) = (example_db, resp) \<and>
        http_status resp = 400"
    using C5_body_checked_for_presence_only [of "example_request []" example_db 10]
    by (simp add: example_request_fields)
next
  show "\<exists>resp. submit_evaluation example_db 10
          \<lparr>rq_json = Raises, rq_remote_addr = None, rq_user_agent = None\<rparr> = (example_db, resp) \<and>
        http_status resp = 500"
    using C5_body_checked_for_presence_only
      [of "\<lparr>rq_json = Raises, rq_remote_addr = None, rq_user_agent = None\<rparr>" example_db 10]
    by simp
next
  let ?subs = "[entry (Some (JString ''Q9'')) (Some (JInt 999)),
                entry (Some (JString ''Q1'')) (Some (JInt (2 ^ 63))),
                entry (Some (JInt 5)) (Some (JFloat (37 / 2))),
                entry (Some (JString ''Q2'')) (Some JArray)]"
  have "rq_json (example_request ?subs) =
          Object \<lparr>bd_token = Some ''tok1'', bd_submissions = Some ?subs\<rparr> \<and>
        bd_token \<lparr>bd_token = Some ''tok1'', bd_submissions = Some ?subs\<rparr> = Some ''tok1'' \<and>
        bd_submissions \<lparr>bd_token = Some ''tok1'', bd_submissions = Some ?subs\<rparr> = Some ?subs \<and>
        ''tok1'' \<noteq> [] \<and> ?subs \<noteq> [] \<and>
        get_token_info example_db ''tok1'' = Some example_token \<and>
        tk_is_used example_token \<noteq> Some True \<and>
        tk_status example_token = Some ''pending'' \<and> 10 \<le> tk_expires_at example_token \<and>
        list_all has_keys ?subs"
    by (simp add: example_request_fields example_db_token example_token_fields entry_facts)
  with C5_body_checked_for_presence_only [of "example_request ?subs" example_db 10]
  obtain db' resp new where
    "submit_evaluation example_db 10 (example_request ?subs) = (db', resp)"
    "http_status resp = 200" "submissions db' = submissions example_db @ new"
    "map row_values new = map sent_values (filter storable ?subs)"
    by blast
  moreover have "map sent_values (filter storable ?subs) =
                   [(SqlText ''Q9'', SqlInteger 999, SqlText []),
                    (SqlInteger 5, SqlReal (37 / 2), SqlText [])]"
    by (simp add: entry_facts)
  ultimately show "\<exists>db' resp new. submit_evaluation example_db 10
          (example_request ?subs) = (db', resp) \<and>
        http_status resp = 200 \<and>
        submissions db' = submissions example_db @ new \<and>
        map row_values new = [(SqlText ''Q9'', SqlInteger 999, SqlText []),
                              (SqlInteger 5, SqlReal (37 / 2), SqlText [])]"
    by auto
qed

text \<open>
  C9, as stated, fails.  \<open>save_tokens_batch\<close> calls \<open>save_token\<close> for each token, and each
  call commits on its own.  With \<open>tok1\<close> already stored, the batch
  \<open>[tokA, tok1, tokC]\<close> meets a conflict at its second token; \<open>tokA\<close> and \<open>tokC\<close> are
  persisted all the same and the result is \<open>(2, 1)\<close>.
\<close>

theorem C9_counterexample:
  "(case save_tokens_batch example_db 0
           [example_token_data ''tokA'', example_token_data ''tok1'',
            example_token_data ''tokC''] of
      (db', success_count, fail_count) \<Rightarrow>
        (map tk_token (tokens db'), success_count, fail_count)) =
   ([Some ''tok1'', Some ''tokA'', Some ''tokC''], 2, 1)"
  by code_simp

text \<open>
  C9, amended.  \<open>save_tokens_batch\<close> saves the tokens one by one in the order of the
  batch, each in a transaction of its own, and returns \<open>(success_count, fail_count)\<close>
  with \<open>success_count + fail_count = len(tokens)\<close>.  The token at position \<open>i\<close> is
  inserted exactly when \<open>save_token\<close> can build its row (\<open>questions\<close> can be serialised,
  the keys \<open>token\<close>, \<open>evaluator_id\<close>, \<open>target_id\<close> and \<open>expires_at\<close> are present, and
  \<open>evaluator_id\<close>, \<open>email\<close>, \<open>target_id\<close> and \<open>expires_at\<close> are not \<open>None\<close>) and its token
  string is neither stored before the call nor carried by an earlier token of the batch
  that has a row; every other token is skipped and counted as failed.  The rows stored
  before are kept, the rows of the inserted tokens are appended in the order of the
  batch, \<open>success_count\<close> is their number, and nothing else in the database changes.
\<close>

theorem C9_batch_saved_token_by_token:
  "save_tokens_batch db now tds =
     (db\<lparr>tokens := tokens db @ saved_rows (map tk_token (tokens db)) now tds\<rparr>,
      length (saved_rows (map tk_token (tokens db)) now tds),
      length tds - length (saved_rows (map tk_token (tokens db)) now tds)) \<and>
   length (saved_rows (map tk_token (tokens db)) now tds) \<le> length tds"
  using save_tokens_loop_char [of db now tds 0 0] length_saved_rows
  by (simp add: save_tokens_batch_def)

lemma C9_example_rows:
  "map (\<lambda>r. (tk_token r, tk_email r))
     (saved_rows (map tk_token (tokens example_db)) 0
        [example_token_data ''tokA'', example_token_data ''tok1'',
         (example_token_data ''tokC'')\<lparr>td_email := Null\<rparr>,
         (example_token_data ''tokD'')\<lparr>td_expires_at := Missing\<rparr>,
         example_token_data ''tokA'',
         (example_token_data ''tokC'')\<lparr>td_email := Missing\<rparr>]) =
   [(Some ''tokA'', ''a@example.org''), (Some ''tokC'', [])]"
  by code_simp

theorem C9_batch_saved_token_by_token_witness:
  "(case save_tokens_batch example_db 0
           [example_token_data ''tokA'', example_token_data ''tok1'',
            (example_token_data ''tokC'')\<lparr>td_email := Null\<rparr>,
            (example_token_data ''tokD'')\<lparr>td_expires_at := Missing\<rparr>,
            example_token_data ''tokA'',
            (example_token_data ''tokC'')\<lparr>td_email := Missing\<rparr>] of
      (db', success_count, fail_count) \<Rightarrow>
        (map (\<lambda>r. (tk_token r, tk_email r)) (tokens db'), success_count, fail_count)) =
   ([(Some ''tok1'', ''a@example.org''), (Some ''tokA'', ''a@example.org''),
     (Some ''tokC'', [])], 2, 4)"
proof -
  let ?tds = "[example_token_data ''tokA'', example_token_data ''tok1'',
            (example_token_data ''tokC'')\<lparr>td_email := Null\<rparr>,
            (example_token_data ''tokD'')\<lparr>td_expires_at := Missing\<rparr>,
            example_token_data ''tokA'',
            (example_token_data ''tokC'')\<lparr>td_email := Missing\<rparr>]"
  let ?rows = "saved_rows (map tk_token (tokens example_db)) 0 ?tds"
  have l: "length ?rows = 2"
    using arg_cong [OF C9_example_rows, of length] by simp
  have t: "map (\<lambda>r. (tk_token r, tk_email r)) (tokens example_db) =
             [(Some ''tok1'', ''a@example.org'')]"
    by (simp add: example_db_def example_token_def)
  show ?thesis
    using C9_batch_saved_token_by_token [of example_db 0 ?tds]
    by (simp add: l t C9_example_rows)
qed

text \<open>
  C10.  Every row that \<open>POST /api/submit\<close> adds to \<open>submissions\<close> carries the token of
  the request and the \<open>evaluator_id\<close> and \<open>target_id\<close> stored with that token in the
  database.  The keys of the body that the handler does not read (an \<open>evaluator_id\<close> or
  \<open>target_id\<close> sent by the client among them) have no effect on the outcome.
\<close>

theorem C10_rows_bound_to_token_pair:
  "(\<exists>new. submissions (fst (submit_evaluation db now rq)) = submissions db @ new \<and>
      (\<forall>r\<in>set new. \<exists>d ti. rq_json rq = Object d \<and> bd_token d = Some (sb_token r) \<and>
          get_token_info db (sb_token r) = Some ti \<and>
          sb_evaluator_id r = tk_evaluator_id ti \<and> sb_target_id r = tk_target_id ti)) \<and>
   submit_evaluation db now (erase_other rq) = submit_evaluation db now rq"
  using submit_rows_bound [of db now rq] submit_erase_other [of db now rq] by (rule conjI)

lemma redirecting_request_eval:
  "map (\<lambda>r. (sb_token r, sb_evaluator_id r, sb_target_id r))
       (submissions (fst (submit_evaluation example_db 10 redirecting_request))) =
     [(''tok1'', ''A'', ''B'')]"
  by code_simp

theorem C10_rows_bound_to_token_pair_witness:
  "map (\<lambda>r. (sb_token r, sb_evaluator_id r, sb_target_id r))
       (submissions (fst (submit_evaluation example_db 10 redirecting_request))) =
     [(''tok1'', ''A'', ''B'')] \<and>
   (\<exists>new. submissions (fst (submit_evaluation example_db 10 redirecting_request)) =
           submissions example_db @ new \<and>
      (\<forall>r\<in>set new. \<exists>d ti. rq_json redirecting_request = Object d \<and>
          bd_token d = Some (sb_token r) \<and>
          get_token_info example_db (sb_token r) = Some ti \<and>
          sb_evaluator_id r = tk_evaluator_id ti \<and> sb_target_id r = tk_target_id ti)) \<and>
   submit_evaluation example_db 10 (erase_other redirecting_request) =
     submit_evaluation example_db 10 redirecting_request"
  using redirecting_request_eval
    C10_rows_bound_to_token_pair [of example_db 10 redirecting_request]
  by (rule conjI)

section \<open>Properties of Consensus\<close>

subsection \<open>Loops that may raise\<close>

lemma for_each_Inr:
  "for_each f xs = Inr ys \<Longrightarrow> list_all2 (\<lambda>x y. f x = Inr y) xs ys"
proof (induction xs arbitrary: ys)
  case Nil
  then show ?case by simp
next
  case (Cons x xs)
  then show ?case by (auto split: sum.splits)
qed

lemma for_each_total:
  "\<forall>x\<in>set xs. \<exists>y. f x = Inr y \<Longrightarrow> \<exists>ys. for_each f xs = Inr ys"
proof (induction xs)
  case Nil
  then show ?case by simp
next
  case (Cons x xs)
  then obtain y ys where "f x = Inr y" "for_each f xs = Inr ys" by auto
  then show ?case by simp
qed

lemma for_each_Inr_mem:
  "for_each f xs = Inr ys \<Longrightarrow> y \<in> set ys \<Longrightarrow> \<exists>x\<in>set xs. f x = Inr y"
proof (induction xs arbitrary: ys)
  case Nil
  then show ?case by simp
next
  case (Cons x xs)
  then show ?case by (auto split: sum.splits)
qed

lemma for_each_Inr_mem':
  "for_each f xs = Inr ys \<Longrightarrow> x \<in> set xs \<Longrightarrow> \<exists>y\<in>set ys. f x = Inr y"
proof (induction xs arbitrary: ys)
  case Nil
  then show ?case by simp
next
  case (Cons x xs)
  then show ?case by (auto split: sum.splits)
qed

subsection \<open>Reputation\<close>

lemma reputation_score_bounds:
  assumes "0 \<le> R_max g" and "0 \<le> lambda_param g"
  shows "0 \<le> reputation_score g u \<and> reputation_score g u \<le> R_max g"
proof (cases "u_variance u")
  case (VFin v)
  have "0 \<le> lambda_param g * sqrt (max 0 v)" using assms(2) by simp
  then show ?thesis using assms(1) VFin by (simp add: reputation_score_def)
qed (use assms in \<open>simp_all add: reputation_score_def\<close>)

lemma calculate_reputation_scores_users:
  "map u_reputation (g_users (calculate_reputation_scores g)) =
     map (\<lambda>u. Some (reputation_score g u)) (g_users g)"
  by (simp add: calculate_reputation_scores_def comp_def)

subsection \<open>Final grades\<close>

lemma final_grade_of_entry:
  assumes "final_grade_of g u = Inr es" and "(name, e) \<in> set es"
  shows "name = u_name u \<and> floor_protected g e \<and>
         (\<exists>it. find (\<lambda>it. i_id it = u_name u) (g_items g) = Some it \<and>
               i_grade it = Some (consensus_score e)) \<and>
         u_incentive_weight u = Some (incentive_weight e) \<and>
         u_reputation u = Some (reputation e)"
  using assms
  by (auto simp: final_grade_of_def floor_protected_def Let_def max_def
           split: option.splits if_splits)

lemma calculate_final_grades_entry:
  assumes "calculate_final_grades g = Inr fg" and "(name, e) \<in> set fg"
  shows "\<exists>u\<in>set (g_users g). name = u_name u \<and> floor_protected g e \<and>
         (\<exists>it. find (\<lambda>it. i_id it = u_name u) (g_items g) = Some it \<and>
               i_grade it = Some (consensus_score e)) \<and>
         u_incentive_weight u = Some (incentive_weight e) \<and>
         u_reputation u = Some (reputation e)"
proof -
  from assms(1) obtain entries where
    fe: "for_each (final_grade_of g) (g_users g) = Inr entries" and fg: "fg = concat entries"
    by (auto simp: calculate_final_grades_def split: sum.splits)
  from assms(2) fg obtain es where es: "es \<in> set entries" "(name, e) \<in> set es" by auto
  from for_each_Inr_mem [OF fe es(1)] obtain u where
    "u \<in> set (g_users g)" "final_grade_of g u = Inr es"
    by blast
  then show ?thesis using final_grade_of_entry [OF _ es(2)] by blast
qed

subsection \<open>The rounds of evaluate_with_reputation\<close>

lemma evaluated_ready: "evaluated g \<Longrightarrow> ready g"
  by (simp add: evaluated_def ready_def)

lemma get_user_mem: "get_user g name = Some u \<Longrightarrow> u \<in> set (g_users g)"
  by (auto simp: get_user_def find_Some_iff)

lemma graded_weights:
  assumes "ready g" and "p \<in> set (graded g it)"
  shows "snd p \<noteq> None"
proof -
  have "\<exists>name u. Some u = get_user g name \<and> snd p = u_reputation u"
    using assms(2) by (auto simp: graded_def split: option.splits) blast
  then obtain name u where "get_user g name = Some u" "snd p = u_reputation u"
    by metis
  then show ?thesis using assms(1) get_user_mem by (auto simp: ready_def)
qed

lemma evaluate_item_total:
  assumes "ready g"
  shows "\<exists>it'. evaluate_item g it = Inr it' \<and> i_id it' = i_id it \<and> i_users it' = i_users it \<and>
               (i_users it \<noteq> [] \<longrightarrow> i_grade it' \<noteq> None)"
proof -
  have "\<not> (\<exists>p\<in>set (graded g it). snd p = None)"
    using graded_weights [OF assms] by blast
  then show ?thesis by (auto simp: evaluate_item_def Let_def)
qed

lemma evaluate_item_Inr:
  assumes "ready g" and "evaluate_item g it = Inr it'"
  shows "i_id it' = i_id it \<and> i_users it' = i_users it \<and>
         (i_users it \<noteq> [] \<longrightarrow> i_grade it' \<noteq> None)"
  using evaluate_item_total [OF assms(1), of it] assms(2) by auto

lemma list_all2_map_eq:
  "list_all2 (\<lambda>x y. f y = f x) xs ys \<Longrightarrow> map f ys = map f xs"
  by (induction rule: list_all2_induct) simp_all

lemma evaluate_items_total:
  assumes "ready g"
  shows "\<exists>g'. evaluate_items g = Inr g' \<and> shape g' = shape g \<and> g_users g' = g_users g \<and>
              (\<forall>it\<in>set (g_items g'). i_users it \<noteq> [] \<longrightarrow> i_grade it \<noteq> None)"
proof -
  have "\<forall>it\<in>set (g_items g). \<exists>it'. evaluate_item g it = Inr it'"
    using evaluate_item_total [OF assms] by blast
  from for_each_total [OF this] obtain items' where
    fe: "for_each (evaluate_item g) (g_items g) = Inr items'" by blast
  have sk: "list_all2 (\<lambda>x y. (i_id y, i_users y) = (i_id x, i_users x)) (g_items g) items'"
    by (rule list_all2_mono [OF for_each_Inr [OF fe]])
       (use evaluate_item_Inr [OF assms] in auto)
  have gr: "i_grade it' \<noteq> None" if "it' \<in> set items'" "i_users it' \<noteq> []" for it'
  proof -
    from for_each_Inr_mem [OF fe that(1)] obtain it where
      "evaluate_item g it = Inr it'" by blast
    from evaluate_item_Inr [OF assms this] show ?thesis using that(2) by auto
  qed
  have "evaluate_items g = Inr (g\<lparr>g_items := items'\<rparr>)"
    using fe by (simp add: evaluate_items_def)
  moreover have "shape (g\<lparr>g_items := items'\<rparr>) = shape g"
    using list_all2_map_eq [OF sk] by (simp add: shape_def)
  ultimately show ?thesis using gr by simp
qed

lemma evaluate_user_fields:
  "u_name (evaluate_user g u) = u_name u" "u_grade (evaluate_user g u) = u_grade u"
  "u_reputation (evaluate_user g u) = u_reputation u"
  "u_variance (evaluate_user g u) \<noteq> VNone"
  by (simp_all add: evaluate_user_def)

lemma evaluate_users_props:
  "shape (evaluate_users g) = shape g"
  "g_items (evaluate_users g) = g_items g"
  "\<forall>u\<in>set (g_users (evaluate_users g)). u_variance u \<noteq> VNone"
  by (auto simp: evaluate_users_def shape_def evaluate_user_fields comp_def)

lemma calculate_reputation_scores_props:
  "shape (calculate_reputation_scores g) = shape g"
  "g_items (calculate_reputation_scores g) = g_items g"
  "\<forall>u\<in>set (g_users (calculate_reputation_scores g)). u_reputation u \<noteq> None"
  "(\<forall>u\<in>set (g_users g). u_variance u \<noteq> VNone) \<Longrightarrow>
     \<forall>u\<in>set (g_users (calculate_reputation_scores g)). u_variance u \<noteq> VNone"
  by (simp_all add: calculate_reputation_scores_def shape_def comp_def)

lemma calculate_reputation_scores_range:
  assumes "0 \<le> R_max g" and "0 \<le> lambda_param g"
  shows "reputations_in_range (calculate_reputation_scores g)"
  using reputation_score_bounds [OF assms]
  by (simp add: reputations_in_range_def calculate_reputation_scores_def)

lemma iteration_total:
  assumes "ready g"
  shows "\<exists>g'. iteration g = Inr g' \<and> shape g' = shape g \<and> evaluated g' \<and>
              (0 \<le> R_max g \<and> 0 \<le> lambda_param g \<longrightarrow> reputations_in_range g')"
proof -
  from evaluate_items_total [OF assms] obtain g1 where
    g1: "evaluate_items g = Inr g1" "shape g1 = shape g"
      "\<forall>it\<in>set (g_items g1). i_users it \<noteq> [] \<longrightarrow> i_grade it \<noteq> None"
    by blast
  let ?g2 = "evaluate_users g1"
  let ?g3 = "calculate_reputation_scores ?g2"
  have run: "iteration g = Inr ?g3" using g1(1) by (simp add: iteration_def)
  have sh: "shape ?g3 = shape g"
    using g1(2) by (simp add: calculate_reputation_scores_props evaluate_users_props)
  have it: "g_items ?g3 = g_items g1"
    by (simp add: calculate_reputation_scores_props evaluate_users_props)
  have ev: "evaluated ?g3"
    unfolding evaluated_def it
    using g1(3) calculate_reputation_scores_props(3) [of ?g2]
      calculate_reputation_scores_props(4) [OF evaluate_users_props(3), of g1]
    by blast
  have par: "R_max ?g2 = R_max g" "lambda_param ?g2 = lambda_param g"
    using g1(2) evaluate_users_props(1) [of g1] by (simp_all add: shape_def)
  have rg: "reputations_in_range ?g3" if "0 \<le> R_max g \<and> 0 \<le> lambda_param g"
    using calculate_reputation_scores_range [of ?g2] that par by simp
  show ?thesis using run sh ev rg by blast
qed

lemma iterations_total:
  "ready g \<Longrightarrow>
   \<exists>g'. iterations n g = Inr g' \<and> shape g' = shape g \<and> ready g' \<and> (0 < n \<longrightarrow> evaluated g') \<and>
        (0 \<le> R_max g \<and> 0 \<le> lambda_param g \<and> reputations_in_range g \<longrightarrow>
           reputations_in_range g')"
proof (induction n arbitrary: g)
  case 0
  then show ?case by simp
next
  case (Suc n)
  from iteration_total [OF Suc.prems] obtain g1 where
    g1: "iteration g = Inr g1" "shape g1 = shape g" "evaluated g1"
      "0 \<le> R_max g \<and> 0 \<le> lambda_param g \<longrightarrow> reputations_in_range g1"
    by blast
  have par: "R_max g1 = R_max g" "lambda_param g1 = lambda_param g"
    using g1(2) by (simp_all add: shape_def)
  from Suc.IH [OF evaluated_ready [OF g1(3)]] obtain g' where
    g': "iterations n g1 = Inr g'" "shape g' = shape g1" "ready g'" "0 < n \<longrightarrow> evaluated g'"
      "0 \<le> R_max g1 \<and> 0 \<le> lambda_param g1 \<and> reputations_in_range g1 \<longrightarrow>
           reputations_in_range g'"
    by blast
  have ev: "evaluated g'"
  proof (cases n)
    case 0
    then show ?thesis using g'(1) g1(3) by simp
  next
    case (Suc m)
    then show ?thesis using g'(4) by simp
  qed
  have "iterations (Suc n) g = Inr g'" using g1(1) g'(1) by simp
  moreover have "shape g' = shape g" using g1(2) g'(2) by simp
  moreover have "reputations_in_range g'"
    if "0 \<le> R_max g \<and> 0 \<le> lambda_param g \<and> reputations_in_range g"
    using that g1(4) g'(5) par by simp
  ultimately show ?case using g'(3) ev by blast
qed

lemma incentive_weight_of_Inr:
  assumes "N g \<noteq> 0" and "u_reputation u \<noteq> None"
  shows "\<exists>u'. incentive_weight_of g u = Inr u' \<and> u_name u' = u_name u \<and>
              u_grade u' = u_grade u \<and> u_reputation u' = u_reputation u \<and>
              u_variance u' = u_variance u \<and> u_incentive_weight u' \<noteq> None"
  using assms by (auto simp: incentive_weight_of_def Let_def)

lemma calculate_incentive_weights_total:
  assumes "N g \<noteq> 0" and "ready g"
  shows "\<exists>g'. calculate_incentive_weights g = Inr g' \<and> shape g' = shape g \<and>
              g_items g' = g_items g \<and>
              (\<forall>u'\<in>set (g_users g'). u_incentive_weight u' \<noteq> None \<and>
                  (\<exists>u\<in>set (g_users g). u_reputation u' = u_reputation u \<and>
                                       u_variance u' = u_variance u))"
proof -
  have tot: "\<exists>u'. incentive_weight_of g u = Inr u'" if "u \<in> set (g_users g)" for u
    using incentive_weight_of_Inr [OF assms(1), of u] assms(2) that
    by (auto simp: ready_def)
  then have "\<forall>u\<in>set (g_users g). \<exists>u'. incentive_weight_of g u = Inr u'" by blast
  from for_each_total [OF this] obtain users' where
    fe: "for_each (incentive_weight_of g) (g_users g) = Inr users'" by blast
  have one: "(u_name u', u_grade u') = (u_name u, u_grade u) \<and> u_incentive_weight u' \<noteq> None \<and>
             u_reputation u' = u_reputation u \<and> u_variance u' = u_variance u"
    if "u \<in> set (g_users g)" "incentive_weight_of g u = Inr u'" for u u'
    using incentive_weight_of_Inr [OF assms(1), of u] assms(2) that
    by (auto simp: ready_def)
  have sk: "list_all2 (\<lambda>x y. (u_name y, u_grade y) = (u_name x, u_grade x)) (g_users g) users'"
    using for_each_Inr [OF fe] one
    by (auto simp: list_all2_conv_all_nth)
  have us: "u_incentive_weight u' \<noteq> None \<and>
            (\<exists>u\<in>set (g_users g). u_reputation u' = u_reputation u \<and>
                                 u_variance u' = u_variance u)"
    if "u' \<in> set users'" for u'
  proof -
    from for_each_Inr_mem [OF fe that] obtain u where
      "u \<in> set (g_users g)" "incentive_weight_of g u = Inr u'" by blast
    then show ?thesis using one by blast
  qed
  have "calculate_incentive_weights g = Inr (g\<lparr>g_users := users'\<rparr>)"
    using fe by (simp add: calculate_incentive_weights_def)
  moreover have "shape (g\<lparr>g_users := users'\<rparr>) = shape g"
    using list_all2_map_eq [OF sk] by (simp add: shape_def)
  ultimately show ?thesis using us by simp
qed

lemma final_grade_of_total:
  assumes "u_incentive_weight u \<noteq> None" and "u_reputation u \<noteq> None" and "u_variance u \<noteq> VNone"
  shows "\<exists>es. final_grade_of g u = Inr es \<and>
           (\<forall>it. find (\<lambda>it. i_id it = u_name u) (g_items g) = Some it \<and> i_grade it \<noteq> None \<longrightarrow>
                 (\<exists>e. (u_name u, e) \<in> set es))"
  using assms by (auto simp: final_grade_of_def Let_def split: option.splits)

lemma calculate_final_grades_total:
  assumes "\<forall>u\<in>set (g_users g). u_incentive_weight u \<noteq> None \<and> u_reputation u \<noteq> None \<and>
                               u_variance u \<noteq> VNone"
  shows "\<exists>fg. calculate_final_grades g = Inr fg \<and>
           (\<forall>u\<in>set (g_users g). \<forall>it.
               find (\<lambda>it. i_id it = u_name u) (g_items g) = Some it \<and> i_grade it \<noteq> None \<longrightarrow>
               (\<exists>e. (u_name u, e) \<in> set fg))"
proof -
  have "\<forall>u\<in>set (g_users g). \<exists>es. final_grade_of g u = Inr es"
    using final_grade_of_total assms by blast
  from for_each_total [OF this] obtain entries where
    fe: "for_each (final_grade_of g) (g_users g) = Inr entries" by blast
  have run: "calculate_final_grades g = Inr (concat entries)"
    using fe by (simp add: calculate_final_grades_def)
  have "\<exists>e. (u_name u, e) \<in> set (concat entries)"
    if u: "u \<in> set (g_users g)"
      and it: "find (\<lambda>it. i_id it = u_name u) (g_items g) = Some it" "i_grade it \<noteq> None"
    for u it
  proof -
    from for_each_Inr_mem' [OF fe u] obtain es where
      es: "es \<in> set entries" "final_grade_of g u = Inr es" by blast
    from final_grade_of_total [of u g] assms u es(2) it
    obtain e where "(u_name u, e) \<in> set es" by auto
    then show ?thesis using es(1) by auto
  qed
  then show ?thesis using run by blast
qed

lemma find_same_skeleton:
  "map (\<lambda>it. (i_id it, i_users it)) ys = map (\<lambda>it. (i_id it, i_users it)) xs \<Longrightarrow>
   find (\<lambda>it. i_id it = k) xs = Some x \<Longrightarrow>
   \<exists>y. find (\<lambda>it. i_id it = k) ys = Some y \<and> i_users y = i_users x"
proof (induction xs arbitrary: ys)
  case Nil
  then show ?case by simp
next
  case (Cons a xs)
  then obtain b ys' where ys: "ys = b # ys'" by (cases ys) auto
  with Cons.prems(1) have ab: "i_id b = i_id a" "i_users b = i_users a"
    and rest: "map (\<lambda>it. (i_id it, i_users it)) ys' = map (\<lambda>it. (i_id it, i_users it)) xs"
    by simp_all
  show ?case
  proof (cases "i_id a = k")
    case True
    then show ?thesis using Cons.prems(2) ab ys by simp
  next
    case False
    then have "find (\<lambda>it. i_id it = k) xs = Some x" using Cons.prems(2) by simp
    from Cons.IH [OF rest this] show ?thesis using False ab ys by simp
  qed
qed

lemma floor_protected_alpha:
  "alpha g' = alpha g \<Longrightarrow> floor_protected g' e = floor_protected g e"
  by (simp add: floor_protected_def)

lemma shape_fields:
  assumes "shape g' = shape g"
  shows "R_max g' = R_max g" "alpha g' = alpha g" "N g' = N g"
    "lambda_param g' = lambda_param g"
    "map (\<lambda>u. (u_name u, u_grade u)) (g_users g') = map (\<lambda>u. (u_name u, u_grade u)) (g_users g)"
    "map (\<lambda>it. (i_id it, i_users it)) (g_items g') = map (\<lambda>it. (i_id it, i_users it)) (g_items g)"
  using assms by (simp_all add: shape_def)

lemma evaluate_with_reputation_result:
  assumes N: "N g \<noteq> 0" and n: "0 < n"
  shows "\<exists>fg. evaluate_with_reputation g n = Inr fg \<and>
           (\<forall>(name, e)\<in>set fg. floor_protected g e) \<and>
           (\<forall>u\<in>set (g_users g). \<forall>it.
               find (\<lambda>it. i_id it = u_name u) (g_items g) = Some it \<and> i_users it \<noteq> [] \<longrightarrow>
               (\<exists>e. (u_name u, e) \<in> set fg)) \<and>
           (0 \<le> R_max g \<and> 0 \<le> lambda_param g \<longrightarrow>
               (\<forall>(name, e)\<in>set fg. 0 \<le> reputation e \<and> reputation e \<le> R_max g))"
proof -
  let ?g0 = "g\<lparr>g_users := map (\<lambda>u. u\<lparr>u_reputation := Some (R_max g)\<rparr>) (g_users g)\<rparr>"
  have r0: "ready ?g0" by (simp add: ready_def)
  have s0: "shape ?g0 = shape g" by (simp add: shape_def comp_def)
  have rr0: "0 \<le> R_max g \<Longrightarrow> reputations_in_range ?g0"
    by (simp add: reputations_in_range_def)
  from iterations_total [OF r0, of n] n obtain g1 where
    g1: "iterations n ?g0 = Inr g1" "shape g1 = shape ?g0" "ready g1" "evaluated g1"
      "0 \<le> R_max ?g0 \<and> 0 \<le> lambda_param ?g0 \<and> reputations_in_range ?g0 \<longrightarrow>
           reputations_in_range g1"
    by blast
  have s1: "shape g1 = shape g" using g1(2) s0 by simp
  have N1: "N g1 \<noteq> 0" using shape_fields(3) [OF s1] N by simp
  from calculate_incentive_weights_total [OF N1 g1(3)] obtain g2 where
    g2: "calculate_incentive_weights g1 = Inr g2" "shape g2 = shape g1"
      "g_items g2 = g_items g1"
      "\<forall>u'\<in>set (g_users g2). u_incentive_weight u' \<noteq> None \<and>
                  (\<exists>u\<in>set (g_users g1). u_reputation u' = u_reputation u \<and>
                                       u_variance u' = u_variance u)"
    by blast
  have s2: "shape g2 = shape g" using g2(2) s1 by simp
  have all2: "\<forall>u\<in>set (g_users g2). u_incentive_weight u \<noteq> None \<and> u_reputation u \<noteq> None \<and>
                               u_variance u \<noteq> VNone"
    using g2(4) g1(4) by (fastforce simp: evaluated_def)
  from calculate_final_grades_total [OF all2] obtain fg where
    fg: "calculate_final_grades g2 = Inr fg"
      "\<forall>u\<in>set (g_users g2). \<forall>it.
               find (\<lambda>it. i_id it = u_name u) (g_items g2) = Some it \<and> i_grade it \<noteq> None \<longrightarrow>
               (\<exists>e. (u_name u, e) \<in> set fg)"
    by blast
  have run: "evaluate_with_reputation g n = Inr fg"
    using g1(1) g2(1) fg(1) by (simp add: evaluate_with_reputation_def)
  have a: "\<forall>(name, e)\<in>set fg. floor_protected g e"
  proof (clarify)
    fix name e assume "(name, e) \<in> set fg"
    from calculate_final_grades_entry [OF fg(1) this] have "floor_protected g2 e" by blast
    then show "floor_protected g e"
      using floor_protected_alpha [OF shape_fields(2) [OF s2]] by simp
  qed
  have b: "\<exists>e. (u_name u, e) \<in> set fg"
    if u: "u \<in> set (g_users g)"
      and it: "find (\<lambda>it. i_id it = u_name u) (g_items g) = Some it" "i_users it \<noteq> []"
    for u it
  proof -
    have "u_name u \<in> set (map u_name (g_users g))" using u by simp
    also have "map u_name (g_users g) = map fst (map (\<lambda>u. (u_name u, u_grade u)) (g_users g))"
      by (simp add: comp_def)
    also have "\<dots> = map fst (map (\<lambda>u. (u_name u, u_grade u)) (g_users g2))"
      using shape_fields(5) [OF s2] by simp
    also have "\<dots> = map u_name (g_users g2)" by (simp add: comp_def)
    finally obtain u2 where u2: "u2 \<in> set (g_users g2)" "u_name u2 = u_name u" by auto
    from find_same_skeleton [OF shape_fields(6) [OF s2] it(1)] obtain it2 where
      it2: "find (\<lambda>it. i_id it = u_name u) (g_items g2) = Some it2" "i_users it2 = i_users it"
      by blast
    then have mem: "it2 \<in> set (g_items g1)" using g2(3) by (auto simp: find_Some_iff)
    then have "i_grade it2 \<noteq> None" using g1(4) it2(2) it(2) by (auto simp: evaluated_def)
    then show ?thesis using fg(2) u2 it2(1) by (metis)
  qed
  have c: "\<forall>(name, e)\<in>set fg. 0 \<le> reputation e \<and> reputation e \<le> R_max g"
    if h: "0 \<le> R_max g \<and> 0 \<le> lambda_param g"
  proof (clarify)
    fix name e assume "(name, e) \<in> set fg"
    from calculate_final_grades_entry [OF fg(1) this] obtain u2 where
      u2: "u2 \<in> set (g_users g2)" "u_reputation u2 = Some (reputation e)" by blast
    with g2(4) obtain u1 where u1: "u1 \<in> set (g_users g1)" "u_reputation u1 = Some (reputation e)"
      by fastforce
    have "reputations_in_range g1" using g1(5) h rr0 by simp
    then show "0 \<le> reputation e \<and> reputation e \<le> R_max g"
      using u1 shape_fields(1) [OF s1] by (auto simp: reputations_in_range_def)
  qed
  show ?thesis using run a b c by blast
qed

subsection \<open>The final aggregation of the core estimator\<close>

lemma variance_estimate_Inr:
  assumes "variance_estimate bp item_grade u m = Inr p"
  shows "\<exists>x. msg_triple item_grade u m x \<and>
             p = (case x of (given, consensus, v) \<Rightarrow>
                    ((given - consensus)\<^sup>2, 1 / (bp + v)))"
  using assms
  by (auto simp: variance_estimate_def msg_triple_def split: option.splits if_splits)

lemma for_each_variance_estimate:
  "for_each (variance_estimate bp item_grade u) ms = Inr ew \<Longrightarrow>
   \<exists>xs. list_all2 (msg_triple item_grade u) ms xs \<and>
        ew = map (\<lambda>(given, consensus, v). ((given - consensus)\<^sup>2, 1 / (bp + v))) xs"
proof (induction ms arbitrary: ew)
  case Nil
  then show ?case by simp
next
  case (Cons m ms)
  from Cons.prems obtain p ew' where
    p: "variance_estimate bp item_grade u m = Inr p"
    and r: "for_each (variance_estimate bp item_grade u) ms = Inr ew'" and e: "ew = p # ew'"
    by (auto split: sum.splits)
  from variance_estimate_Inr [OF p] obtain x where
    x: "msg_triple item_grade u m x"
      "p = (case x of (given, consensus, v) \<Rightarrow> ((given - consensus)\<^sup>2, 1 / (bp + v)))"
    by blast
  from Cons.IH [OF r] obtain xs where
    xs: "list_all2 (msg_triple item_grade u) ms xs"
      "ew' = map (\<lambda>(given, consensus, v). ((given - consensus)\<^sup>2, 1 / (bp + v))) xs"
    by blast
  have "list_all2 (msg_triple item_grade u) (m # ms) (x # xs)" using x(1) xs(1) by simp
  moreover have "ew = map (\<lambda>(given, consensus, v). ((given - consensus)\<^sup>2, 1 / (bp + v))) (x # xs)"
    using e x(2) xs(2) by simp
  ultimately show ?case by blast
qed

lemma weighted_squares_sum:
  "sum_list (map2 (\<lambda>w (given, consensus, v). w * (given - consensus)\<^sup>2)
       (map (\<lambda>v. (1 / (bp + v)) / (W::real)) (map (\<lambda>(given, consensus, v). v) xs)) xs) =
   sum_list (map (\<lambda>(given, consensus, v). (given - consensus)\<^sup>2 * (1 / (bp + v))) xs) / W"
  by (induction xs) (auto simp: add_divide_distrib)

lemma estimates_times_weights:
  "map2 (*) (map (\<lambda>(given, consensus, v). (given - consensus)\<^sup>2) xs)
            (map (\<lambda>(given, consensus, v). 1 / (bp + v)) xs) =
   map (\<lambda>(given, consensus, v). (given - consensus)\<^sup>2 * (1 / (bp + (v::real)))) xs"
  by (induction xs) auto

lemma sum_list_divide_const:
  "sum_list (map (\<lambda>x. f x / (c::real)) xs) = sum_list (map f xs) / c"
  by (induction xs) (simp_all add: add_divide_distrib)

lemma spec_user_variance_eq:
  "spec_user_variance bp xs =
     sum_list (map (\<lambda>(given, consensus, v). (given - consensus)\<^sup>2 * (1 / (bp + v))) xs) /
     sum_list (map (\<lambda>(given, consensus, v). 1 / (bp + v)) xs)"
proof -
  let ?W = "sum_list (map (\<lambda>(given, consensus, v). 1 / (bp + v)) xs)"
  have W: "sum_list (map (\<lambda>v. 1 / (bp + v)) (map (\<lambda>(given, consensus, v). v) xs)) = ?W"
    by (simp add: comp_def case_prod_unfold)
  show ?thesis
    unfolding spec_user_variance_def normalised_weights_def W
    by (rule weighted_squares_sum)
qed

lemma normalised_weights_sum:
  assumes "sum_list (map (\<lambda>v. 1 / (bp + v)) vs) \<noteq> 0"
  shows "sum_list (normalised_weights bp vs) = 1"
proof -
  have "sum_list (normalised_weights bp vs) =
        sum_list (map (\<lambda>v. 1 / (bp + v)) vs) / sum_list (map (\<lambda>v. 1 / (bp + v)) vs)"
    unfolding normalised_weights_def by (rule sum_list_divide_const)
  then show ?thesis using assms by simp
qed

lemma aggregate_user_messages_variance:
  assumes "aggregate_user_messages bp item_grade u = Inr u'" and "cu_msgs u \<noteq> []"
  shows "\<exists>xs. list_all2 (msg_triple item_grade u) (cu_msgs u) xs \<and>
              cu_variance u' = Some (spec_user_variance bp xs) \<and>
              sum_list (normalised_weights bp (map (\<lambda>(given, consensus, v). v) xs)) = 1"
proof -
  from assms obtain ew v where
    fe: "for_each (variance_estimate bp item_grade u) (cu_msgs u) = Inr ew"
    and ag: "aggregate (map fst ew) (map snd ew) = Inr v"
    and u': "cu_variance u' = Some v"
    by (auto simp: aggregate_user_messages_def split: sum.splits)
  from for_each_variance_estimate [OF fe] obtain xs where
    xs: "list_all2 (msg_triple item_grade u) (cu_msgs u) xs"
      "ew = map (\<lambda>(given, consensus, v). ((given - consensus)\<^sup>2, 1 / (bp + v))) xs"
    by blast
  have f: "map fst ew = map (\<lambda>(given, consensus, v). (given - consensus)\<^sup>2) xs"
    and s: "map snd ew = map (\<lambda>(given, consensus, v). 1 / (bp + v)) xs"
    unfolding xs(2) by (simp_all add: comp_def case_prod_unfold)
  from ag have W: "sum_list (map snd ew) \<noteq> 0"
    and v: "v = sum_list (map2 (*) (map fst ew) (map snd ew)) / sum_list (map snd ew)"
    by (auto simp: aggregate_def split: if_splits)
  have "map2 (*) (map fst ew) (map snd ew) =
        map (\<lambda>(given, consensus, v). (given - consensus)\<^sup>2 * (1 / (bp + v))) xs"
    unfolding f s by (rule estimates_times_weights)
  then have "v = spec_user_variance bp xs"
    unfolding v spec_user_variance_eq s by simp
  moreover have "sum_list (map (\<lambda>v. 1 / (bp + v)) (map (\<lambda>(given, consensus, v). v) xs)) \<noteq> 0"
    using W unfolding s by (simp add: comp_def case_prod_unfold)
  ultimately show ?thesis using xs(1) u' normalised_weights_sum by blast
qed

subsection \<open>The variance of a user in EnhancedGraph\<close>

lemma differences_review_triples:
  assumes "\<forall>it\<in>set (g_items g). i_grade it \<noteq> None \<longrightarrow> i_variance it \<noteq> None"
  shows "differences g u = map (\<lambda>(given, consensus, v). \<bar>given - consensus\<bar>) (review_triples g u)"
proof -
  have one: "(case get_item g item_id of None \<Rightarrow> []
              | Some it \<Rightarrow> (case i_grade it of None \<Rightarrow> []
                            | Some c \<Rightarrow> [\<bar>score - c\<bar>])) =
             map (\<lambda>(given, consensus, v). \<bar>given - consensus\<bar>)
               (case get_item g item_id of None \<Rightarrow> []
                | Some it \<Rightarrow> (case (i_grade it, i_variance it) of
                                (Some c, Some v) \<Rightarrow> [(score, c, v)] | _ \<Rightarrow> []))"
    for item_id score
  proof (cases "get_item g item_id")
    case None
    then show ?thesis by simp
  next
    case (Some it)
    then have "it \<in> set (g_items g)" by (auto simp: get_item_def find_Some_iff)
    then have "i_grade it \<noteq> None \<longrightarrow> i_variance it \<noteq> None" using assms by blast
    then show ?thesis using Some by (auto split: option.splits)
  qed
  show ?thesis
    unfolding differences_def review_triples_def
    by (simp add: map_concat comp_def case_prod_unfold one)
qed

subsection \<open>The parameters of a graph\<close>

text \<open>
  The constructor sets \<open>lambda_param = R_max / v_G\<close> and \<open>add_review\<close> changes no parameter,
  so every graph the processor builds has it; the example graphs are built this way.
\<close>

lemma EnhancedGraph_params:
  "EnhancedGraph R v a n bp = Inr g \<Longrightarrow>
   R_max g = R \<and> v_G g = v \<and> alpha g = a \<and> N g = n \<and> basic_precision g = bp \<and>
   lambda_param g = R_max g / v_G g \<and> v \<noteq> 0"
  by (auto simp: EnhancedGraph_def split: if_splits)

lemma add_review_params:
  "R_max (add_review g username item_id grade) = R_max g"
  "v_G (add_review g username item_id grade) = v_G g"
  "alpha (add_review g username item_id grade) = alpha g"
  "N (add_review g username item_id grade) = N g"
  "lambda_param (add_review g username item_id grade) = lambda_param g"
  "basic_precision (add_review g username item_id grade) = basic_precision g"
  by (simp_all add: add_review_def Let_def)

lemma empty_graph_constructed:
  "EnhancedGraph 1 8 (1 / 10) 4 (1 / 10000) = Inr empty_graph"
  by (simp add: EnhancedGraph_def empty_graph_def)

subsection \<open>Claims about Consensus\<close>



lemma e4_graph_facts:
  "N e4_graph \<noteq> 0"
  "\<lparr>u_name = ''A'', u_grade = [(''B'', 80), (''C'', 60)], u_variance = VNone,
     u_reputation = None, u_incentive_weight = None\<rparr> \<in> set (g_users e4_graph)"
  "find (\<lambda>it. i_id it = ''A'') (g_items e4_graph) =
     Some \<lparr>i_id = ''A'', i_users = [''B'', ''C''], i_grade = None, i_variance = None\<rparr>"
  by code_simp+


text \<open>
  C2, as stated, fails for \<open>EnhancedGraph.evaluate_users\<close>, the implementation that
  \<open>evaluate_with_reputation\<close> runs in each iteration.  In the first iteration on
  \<open>toy_graph\<close> both papers get the consensus 2 and the same variance \<open>8/3\<close>, so every
  inverse-variance weighting gives both papers the weight \<open>1/2\<close>; reviewer \<open>u\<close> is 0 and 2
  away from the consensus, the weighted mean of the squared differences is 2, and the
  code stores the variance 1.
\<close>

theorem C2_counterexample:
  "(case evaluate_items toy_ready of
      Inr g \<Rightarrow> map (\<lambda>u. (u_name u, u_variance u,
                        spec_user_variance (basic_precision g) (review_triples g u)))
                 (g_users (evaluate_users g))
    | Inl e \<Rightarrow> []) =
   [(''u'', VFin 1, 2), (''v'', VFin 1, 2), (''w'', VFin 4, 4)]"
  by code_simp

text \<open>
  C2, amended.  The two implementations of Consensus estimate a reviewer's variance
  differently.  \<open>EnhancedGraph.evaluate_users\<close> (run in each iteration) stores the square
  of the unweighted mean of \<open>|given_score - item.consensus|\<close> over the items the reviewer
  graded that have a consensus (0 when there is none, infinity for a reviewer without
  grades).  \<open>Graph._aggregate_user_messages\<close> of the core estimator (run once, after the
  iterations) stores the mean of \<open>(given_score - item.consensus)\<^sup>2\<close> over the reviewer's
  messages with the weights \<open>1 / (basic_precision + variance)\<close> of the messages
  normalised to sum to 1.
\<close>

theorem C2_reviewer_variance_rules:
  "((\<forall>it\<in>set (g_items g). i_grade it \<noteq> None \<longrightarrow> i_variance it \<noteq> None) \<longrightarrow>
      map u_variance (g_users (evaluate_users g)) =
        map (\<lambda>u. if u_grade u = [] then VInf
                  else if review_triples g u = [] then VFin 0
                  else VFin ((mean (map (\<lambda>(given, consensus, v). \<bar>given - consensus\<bar>)
                                      (review_triples g u)))\<^sup>2))
            (g_users g)) \<and>
   (aggregate_user_messages bp item_grade cu = Inr cu' \<and> cu_msgs cu \<noteq> [] \<longrightarrow>
      (\<exists>xs. list_all2 (msg_triple item_grade cu) (cu_msgs cu) xs \<and>
            cu_variance cu' = Some (spec_user_variance bp xs) \<and>
            sum_list (normalised_weights bp (map (\<lambda>(given, consensus, v). v) xs)) = 1))"
proof (intro conjI impI)
  assume h: "\<forall>it\<in>set (g_items g). i_grade it \<noteq> None \<longrightarrow> i_variance it \<noteq> None"
  have "u_variance (evaluate_user g u) =
          (if u_grade u = [] then VInf
           else if review_triples g u = [] then VFin 0
           else VFin ((mean (map (\<lambda>(given, consensus, v). \<bar>given - consensus\<bar>)
                               (review_triples g u)))\<^sup>2))" for u
    unfolding evaluate_user_def differences_review_triples [OF h] by simp
  then show "map u_variance (g_users (evaluate_users g)) =
        map (\<lambda>u. if u_grade u = [] then VInf
                  else if review_triples g u = [] then VFin 0
                  else VFin ((mean (map (\<lambda>(given, consensus, v). \<bar>given - consensus\<bar>)
                                      (review_triples g u)))\<^sup>2))
            (g_users g)"
    by (simp add: evaluate_users_def comp_def)
next
  assume "aggregate_user_messages bp item_grade cu = Inr cu' \<and> cu_msgs cu \<noteq> []"
  then have "aggregate_user_messages bp item_grade cu = Inr cu'" "cu_msgs cu \<noteq> []"
    by simp_all
  then show "\<exists>xs. list_all2 (msg_triple item_grade cu) (cu_msgs cu) xs \<and>
            cu_variance cu' = Some (spec_user_variance bp xs) \<and>
            sum_list (normalised_weights bp (map (\<lambda>(given, consensus, v). v) xs)) = 1"
    by (rule aggregate_user_messages_variance)
qed

lemma toy_scored_facts:
  "\<forall>it\<in>set (g_items toy_scored). i_grade it \<noteq> None \<longrightarrow> i_variance it \<noteq> None"
  "map u_name (g_users toy_scored) = [''u'', ''v'', ''w'']"
  "map (\<lambda>u. if u_grade u = [] then VInf
             else if review_triples toy_scored u = [] then VFin 0
             else VFin ((mean (map (\<lambda>(given, consensus, v). \<bar>given - consensus\<bar>)
                                 (review_triples toy_scored u)))\<^sup>2))
       (g_users toy_scored) = [VFin 1, VFin 1, VFin 4]"
  by code_simp+

lemma core_example_run:
  "aggregate_user_messages (1 / 10000) core_example_grades core_example_user =
     Inr (core_example_user\<lparr>cu_variance := Some (20002 / 20001), cu_bias := Some 0\<rparr>)"
  by code_simp

theorem C2_reviewer_variance_rules_witness:
  "map u_variance (g_users (evaluate_users toy_scored)) = [VFin 1, VFin 1, VFin 4] \<and>
   (\<exists>xs. list_all2 (msg_triple core_example_grades core_example_user)
            (cu_msgs core_example_user) xs \<and>
         spec_user_variance (1 / 10000) xs = 20002 / 20001 \<and>
         sum_list (normalised_weights (1 / 10000) (map (\<lambda>(given, consensus, v). v) xs)) = 1)"
proof
  show "map u_variance (g_users (evaluate_users toy_scored)) = [VFin 1, VFin 1, VFin 4]"
    using C2_reviewer_variance_rules [of toy_scored] toy_scored_facts(1,3) by simp
next
  have "cu_msgs core_example_user \<noteq> []" by (simp add: core_example_user_def)
  with C2_reviewer_variance_rules [of toy_scored "1 / 10000" core_example_grades
      core_example_user
      "core_example_user\<lparr>cu_variance := Some (20002 / 20001), cu_bias := Some 0\<rparr>"]
    core_example_run
  show "\<exists>xs. list_all2 (msg_triple core_example_grades core_example_user)
            (cu_msgs core_example_user) xs \<and>
         spec_user_variance (1 / 10000) xs = 20002 / 20001 \<and>
         sum_list (normalised_weights (1 / 10000) (map (\<lambda>(given, consensus, v). v) xs)) = 1"
    by auto
qed

text \<open>
  C8.  With \<open>R_max > 0\<close>, \<open>v_G > 0\<close> and \<open>lambda_param = R_max / v_G\<close> as the constructor
  sets it: after \<open>calculate_reputation_scores\<close> the reputation of a user with a finite
  variance is \<open>max(0, R_max - (R_max / v_G) * sqrt(max(0, variance)))\<close> and that of any
  other user (no variance, infinite variance) is 0; every reputation lies in
  \<open>[0, R_max]\<close>; and the reputation of every entry of the final grades returned by
  \<open>evaluate_with_reputation\<close> lies in \<open>[0, R_max]\<close>.
\<close>

theorem C8_reputation_formula_and_bounds:
  assumes "0 < R_max g" and "0 < v_G g" and "lambda_param g = R_max g / v_G g"
  shows "map u_reputation (g_users (calculate_reputation_scores g)) =
           map (\<lambda>u. Some (case u_variance u of
                             VFin v \<Rightarrow> max 0 (R_max g - (R_max g / v_G g) * sqrt (max 0 v))
                           | _ \<Rightarrow> 0))
               (g_users g) \<and>
         (\<forall>u\<in>set (g_users (calculate_reputation_scores g)).
             \<exists>r. u_reputation u = Some r \<and> 0 \<le> r \<and> r \<le> R_max g) \<and>
         (N g \<noteq> 0 \<and> 0 < n \<longrightarrow>
            (\<exists>fg. evaluate_with_reputation g n = Inr fg \<and>
                  (\<forall>(name, e)\<in>set fg. 0 \<le> reputation e \<and> reputation e \<le> R_max g)))"
proof (intro conjI impI)
  have l: "0 \<le> lambda_param g" using assms by simp
  have r: "0 \<le> R_max g" using assms(1) by simp
  show "map u_reputation (g_users (calculate_reputation_scores g)) =
           map (\<lambda>u. Some (case u_variance u of
                             VFin v \<Rightarrow> max 0 (R_max g - (R_max g / v_G g) * sqrt (max 0 v))
                           | _ \<Rightarrow> 0))
               (g_users g)"
    unfolding calculate_reputation_scores_users reputation_score_def assms(3) ..
  show "\<forall>u\<in>set (g_users (calculate_reputation_scores g)).
             \<exists>r. u_reputation u = Some r \<and> 0 \<le> r \<and> r \<le> R_max g"
    using calculate_reputation_scores_range [OF r l]
    by (simp add: reputations_in_range_def calculate_reputation_scores_def)
  assume "N g \<noteq> 0 \<and> 0 < n"
  then have "N g \<noteq> 0" "0 < n" by simp_all
  from evaluate_with_reputation_result [OF this] r l
  show "\<exists>fg. evaluate_with_reputation g n = Inr fg \<and>
                  (\<forall>(name, e)\<in>set fg. 0 \<le> reputation e \<and> reputation e \<le> R_max g)"
    by blast
qed

lemma e4_graph_params:
  "0 < R_max e4_graph" "0 < v_G e4_graph"
  "lambda_param e4_graph = R_max e4_graph / v_G e4_graph" "R_max e4_graph = 1"
  by code_simp+

lemma variance_graph_params:
  "0 < R_max variance_graph" "0 < v_G variance_graph"
  "lambda_param variance_graph = R_max variance_graph / v_G variance_graph"
  "R_max variance_graph = 1" "v_G variance_graph = 8"
  by (simp_all add: variance_graph_def empty_graph_def)

lemma sqrt_hundred: "sqrt 100 = 10"
  using real_sqrt_abs [of 10] by simp

theorem C8_reputation_formula_and_bounds_witness:
  "map u_reputation (g_users (calculate_reputation_scores variance_graph)) =
     [Some (3 / 4), Some 0, Some 0, Some 0] \<and>
   (\<exists>fg. evaluate_with_reputation e4_graph 25 = Inr fg \<and>
         (\<forall>(name, e)\<in>set fg. 0 \<le> reputation e \<and> reputation e \<le> 1))"
proof (intro conjI)
  have "map u_reputation (g_users (calculate_reputation_scores variance_graph)) =
           map (\<lambda>u. Some (case u_variance u of
                             VFin v \<Rightarrow> max 0 (R_max variance_graph -
                                         (R_max variance_graph / v_G variance_graph) *
                                         sqrt (max 0 v))
                           | _ \<Rightarrow> 0))
               (g_users variance_graph)"
    using C8_reputation_formula_and_bounds [OF variance_graph_params(1,2,3), of 1] by simp
  also have "\<dots> = [Some (3 / 4), Some 0, Some 0, Some 0]"
    unfolding variance_graph_params(4,5)
    by (simp add: variance_graph_def empty_graph_def sqrt_hundred)
  finally show "map u_reputation (g_users (calculate_reputation_scores variance_graph)) =
     [Some (3 / 4), Some 0, Some 0, Some 0]" .
next
  show "\<exists>fg. evaluate_with_reputation e4_graph 25 = Inr fg \<and>
         (\<forall>(name, e)\<in>set fg. 0 \<le> reputation e \<and> reputation e \<le> 1)"
    using C8_reputation_formula_and_bounds [OF e4_graph_params(1,2,3), of 25]
      e4_graph_facts(1) e4_graph_params(4)
    by simp
qed

end
